theory Spec2Isabelle
  imports Main "HOL-Library.Word" "HOL-Library.Signed_Division"
begin

text \<open>
  A shallow embedding of two parts of libosmium: the PBF input format
  (\<open>include/osmium/io/detail/pbf_input_format.hpp\<close>), from the framing of blobs to the
  decoding of a primitive block, and the relation collector
  (\<open>include/osmium/relations/collector.hpp\<close>) with its two passes. The definitions come
  first, function by function in the order of the sources; the theorems follow.
\<close>

section \<open>Machine integers and failures\<close>

text \<open>
  The decoder computes on \<open>int32_t\<close>, \<open>uint32_t\<close> and \<open>int64_t\<close>. They are words here:
  addition and multiplication wrap, \<open>sint\<close> reads a word as two's complement and
  \<open>scast\<close> is the sign-extending (or truncating) conversion between widths.
\<close>

type_synonym int32 = "32 word"
type_synonym uint32 = "32 word"
type_synonym int64 = "64 word"

text \<open>C++ division of signed integers truncates towards zero.\<close>

definition sdiv_w :: "'a::len word \<Rightarrow> 'a word \<Rightarrow> 'a word" where
  "sdiv_w a b = word_of_int (sint a sdiv sint b)"

text \<open>
  Every way in which a function of the source stops without returning is a value:
  \<^item> \<open>pbf_error what\<close>: \<open>throw osmium::pbf_error(what)\<close>;
  \<^item> \<open>assertion_failed cond\<close>: \<open>assert(cond)\<close> fails in a build without \<open>NDEBUG\<close>; the
    process is aborted, no exception is thrown;
  \<^item> \<open>bad_array_new_length\<close>: \<open>new unsigned char[size]\<close> with a negative \<open>size\<close>;
  \<^item> \<open>out_of_range_read\<close>: an element of a repeated field or of a vector is read at an
    index that is not below its size. The source has no defined behaviour there; the model
    stops;
  \<^item> \<open>queue_blocked\<close>: \<open>wait_and_pop\<close> on a queue into which nothing more is pushed
    does not return.
  Functions that contain \<open>assert\<close> take the build flag \<open>ndebug\<close>: with \<open>ndebug = True\<close>
  the assertions are compiled out.
\<close>

datatype error =
    pbf_error string
  | assertion_failed string
  | bad_array_new_length
  | out_of_range_read
  | queue_blocked

definition bind_e :: "error + 'a \<Rightarrow> ('a \<Rightarrow> error + 'b) \<Rightarrow> error + 'b" where
  "bind_e m f = (case m of Inl e \<Rightarrow> Inl e | Inr x \<Rightarrow> f x)"

definition c_assert :: "bool \<Rightarrow> bool \<Rightarrow> string \<Rightarrow> error + unit" where
  "c_assert ndebug cond what =
     (if ndebug \<or> cond then Inr () else Inl (assertion_failed what))"

text \<open>\<open>RepeatedField::Get(index)\<close> and \<open>std::vector::operator[]\<close> with an unsigned index.\<close>

definition get_at :: "'a list \<Rightarrow> nat \<Rightarrow> error + 'a" where
  "get_at xs i = (if i < length xs then Inr (xs ! i) else Inl out_of_range_read)"

section \<open>The OSMPBF messages\<close>

text \<open>
  The generated protobuf classes are not part of the sources; the records hold what
  their accessors return (the default where an optional field is absent), with the field
  types of the OSM-PBF schema. An optional sub-message is an \<open>option\<close>
  (\<open>has_info()\<close>, \<open>has_dense()\<close>, \<open>has_denseinfo()\<close>), a repeated field is a list.
\<close>

record Info =
  info_version :: int32
  info_timestamp :: int64
  info_changeset :: int64
  info_uid :: int32
  info_user_sid :: uint32
  info_visible :: "bool option"

record DenseInfo =
  di_version :: "int32 list"
  di_timestamp :: "int64 list"
  di_changeset :: "int64 list"
  di_uid :: "int32 list"
  di_user_sid :: "int32 list"
  di_visible :: "bool list"

record pbf_Node =
  n_id :: int64
  n_keys :: "uint32 list"
  n_vals :: "uint32 list"
  n_info :: "Info option"
  n_lat :: int64
  n_lon :: int64

record DenseNodes =
  d_id :: "int64 list"
  d_denseinfo :: "DenseInfo option"
  d_lat :: "int64 list"
  d_lon :: "int64 list"
  d_keys_vals :: "int32 list"

record pbf_Way =
  w_id :: int64
  w_keys :: "uint32 list"
  w_vals :: "uint32 list"
  w_info :: "Info option"
  w_refs :: "int64 list"

datatype MemberType = NODE | WAY | RELATION

record pbf_Relation =
  r_id :: int64
  r_keys :: "uint32 list"
  r_vals :: "uint32 list"
  r_info :: "Info option"
  r_roles_sid :: "int32 list"
  r_memids :: "int64 list"
  r_types :: "MemberType list"

record PrimitiveGroup =
  g_nodes :: "pbf_Node list"
  g_dense :: "DenseNodes option"
  g_ways :: "pbf_Way list"
  g_relations :: "pbf_Relation list"

record PrimitiveBlock =
  pb_stringtable :: "string list"
  pb_primitivegroup :: "PrimitiveGroup list"
  pb_granularity :: int32
  pb_lat_offset :: int64
  pb_lon_offset :: int64
  pb_date_granularity :: int32

section \<open>Decoded entities\<close>

datatype item_type = node | way | relation

text \<open>
  One record stands for the object a \<open>NodeBuilder\<close>, \<open>WayBuilder\<close> or
  \<open>RelationBuilder\<close> writes into the buffer. A field the decoder sets through a setter
  holds the argument of the call (\<open>None\<close> while the setter has not been called);
  \<open>e_location\<close> holds the two arguments of \<open>osmium::Location(x, y)\<close>, longitude first.
  The classes behind the setters are not part of the sources.
\<close>

record OSMEntity =
  e_type :: item_type
  e_id :: int64
  e_version :: "uint32 option"
  e_changeset :: "uint32 option"
  e_timestamp :: "int64 option"
  e_uid :: "int32 option"
  e_visible :: bool
  e_user :: string
  e_location :: "(int64 \<times> int64) option"
  e_nodes :: "int64 list"
  e_members :: "(item_type \<times> int64 \<times> string) list"
  e_tags :: "(string \<times> string) list"

text \<open>
  Modelled from the spec: the object a builder starts from (\<open>osmium/osm/object.hpp\<close> is
  not part of the sources). Section 4.4 gives \<open>visible\<close> the default \<open>true\<close>; the other
  fields are unset or empty.
\<close>

definition new_object :: "item_type \<Rightarrow> OSMEntity" where
  "new_object t =
     \<lparr> e_type = t, e_id = 0, e_version = None, e_changeset = None, e_timestamp = None,
       e_uid = None, e_visible = True, e_user = [], e_location = None, e_nodes = [],
       e_members = [], e_tags = [] \<rparr>"

text \<open>Modelled from the spec: the constants of section 6.2 (their headers are not part of the sources).\<close>

definition lonlat_resolution :: int64 where
  "lonlat_resolution = 1000000000"

definition coordinate_precision :: int64 where
  "coordinate_precision = 10000000"

text \<open>
  Modelled from the spec: \<open>static_cast_with_assert\<close> (\<open>osmium/util/cast.hpp\<close> is not part
  of the sources) asserts that the value fits the target type and casts. The target types
  of section 3 are \<open>u32\<close> for version and changeset; the string table is indexed by \<open>int\<close>.
\<close>

definition static_cast_with_assert_version :: "bool \<Rightarrow> int32 \<Rightarrow> error + uint32" where
  "static_cast_with_assert_version ndebug v =
     bind_e (c_assert ndebug (0 \<le> sint v) ''value >= 0'') (\<lambda>_. Inr v)"

definition static_cast_with_assert_changeset :: "bool \<Rightarrow> int64 \<Rightarrow> error + uint32" where
  "static_cast_with_assert_changeset ndebug v =
     bind_e (c_assert ndebug (0 \<le> sint v \<and> sint v < 2 ^ 32) ''value >= 0 && value <= max'')
       (\<lambda>_. Inr (ucast v))"

definition static_cast_with_assert_int :: "bool \<Rightarrow> uint32 \<Rightarrow> error + int32" where
  "static_cast_with_assert_int ndebug v =
     bind_e (c_assert ndebug (uint v < 2 ^ 31) ''value <= max'') (\<lambda>_. Inr v)"

section \<open>PBFPrimitiveBlockParser\<close>

record PBFPrimitiveBlockParser =
  m_stringtable :: "string list"
  m_lon_offset :: int64
  m_lat_offset :: int64
  m_date_factor :: int64
  m_granularity :: int32
  m_read_types :: "item_type set"

text \<open>\<open>m_stringtable->s(index)\<close> with an \<open>int\<close> index.\<close>

definition s :: "string list \<Rightarrow> int32 \<Rightarrow> error + string" where
  "s st i =
     (if 0 \<le> sint i \<and> nat (sint i) < length st then Inr (st ! nat (sint i))
      else Inl out_of_range_read)"

text \<open>
  \<open>(raw * m_granularity + offset) / (OSMPBF::lonlat_resolution /
  osmium::Location::coordinate_precision)\<close>, in \<open>int64_t\<close>.
\<close>

definition coordinate :: "int64 \<Rightarrow> int32 \<Rightarrow> int64 \<Rightarrow> int64" where
  "coordinate raw gran offset =
     sdiv_w (raw * scast gran + offset) (sdiv_w lonlat_resolution coordinate_precision)"

definition parse_attributes ::
  "bool \<Rightarrow> PBFPrimitiveBlockParser \<Rightarrow> item_type \<Rightarrow> int64 \<Rightarrow> Info option \<Rightarrow> error + OSMEntity" where
  "parse_attributes ndebug p t oid info =
     (let object = (new_object t)\<lparr>e_id := oid\<rparr> in
      case info of
        Some i \<Rightarrow>
          bind_e (static_cast_with_assert_version ndebug (info_version i)) (\<lambda>v.
          bind_e (static_cast_with_assert_changeset ndebug (info_changeset i)) (\<lambda>c.
          let object = object\<lparr>e_version := Some v, e_changeset := Some c,
                              e_timestamp := Some (info_timestamp i * m_date_factor p),
                              e_uid := Some (info_uid i)\<rparr>;
              object = (case info_visible i of
                          Some vis \<Rightarrow> object\<lparr>e_visible := vis\<rparr>
                        | None \<Rightarrow> object)
          in
          bind_e (static_cast_with_assert_int ndebug (info_user_sid i)) (\<lambda>sid.
          bind_e (s (m_stringtable p) sid) (\<lambda>u.
          Inr (object\<lparr>e_user := u\<rparr>)))))
      | None \<Rightarrow> Inr (object\<lparr>e_user := []\<rparr>))"

text \<open>
  The tag loop shared by the three non-dense groups: \<open>for (tag = 0; tag < keys_size();
  ++tag) add_tag(s(keys(tag)), s(vals(tag)))\<close>.
\<close>

function tag_loop ::
  "string list \<Rightarrow> uint32 list \<Rightarrow> uint32 list \<Rightarrow> nat \<Rightarrow> (string \<times> string) list
   \<Rightarrow> error + (string \<times> string) list" where
  "tag_loop st keys vals tag acc =
     (if tag < length keys then
        bind_e (s st (keys ! tag)) (\<lambda>k.
        bind_e (get_at vals tag) (\<lambda>vi.
        bind_e (s st vi) (\<lambda>v.
        tag_loop st keys vals (tag + 1) (acc @ [(k, v)]))))
      else Inr acc)"
  by pat_completeness auto
termination
  by (relation "measure (\<lambda>(st, keys, vals, tag, acc). length keys - tag)") auto

declare tag_loop.simps [simp del]

definition parse_tags ::
  "string list \<Rightarrow> uint32 list \<Rightarrow> uint32 list \<Rightarrow> error + (string \<times> string) list" where
  "parse_tags st keys vals =
     (if length keys > 0 then tag_loop st keys vals 0 [] else Inr [])"

definition parse_node :: "bool \<Rightarrow> PBFPrimitiveBlockParser \<Rightarrow> pbf_Node \<Rightarrow> error + OSMEntity" where
  "parse_node ndebug p pbf_node =
     bind_e (parse_attributes ndebug p node (n_id pbf_node) (n_info pbf_node)) (\<lambda>object.
     let object =
       (if e_visible object then
          object\<lparr>e_location := Some
            (coordinate (n_lon pbf_node) (m_granularity p) (m_lon_offset p),
             coordinate (n_lat pbf_node) (m_granularity p) (m_lat_offset p))\<rparr>
        else object)
     in
     bind_e (parse_tags (m_stringtable p) (n_keys pbf_node) (n_vals pbf_node)) (\<lambda>tags.
     Inr (object\<lparr>e_tags := tags\<rparr>)))"

text \<open>
  A group loop appends one committed object per element to \<open>m_buffer\<close>; an error leaves the
  loop at once.
\<close>

fun parse_node_group ::
  "bool \<Rightarrow> PBFPrimitiveBlockParser \<Rightarrow> pbf_Node list \<Rightarrow> OSMEntity list \<Rightarrow> error + OSMEntity list" where
  "parse_node_group ndebug p [] m_buffer = Inr m_buffer"
| "parse_node_group ndebug p (pbf_node # rest) m_buffer =
     bind_e (parse_node ndebug p pbf_node) (\<lambda>object.
     parse_node_group ndebug p rest (m_buffer @ [object]))"

text \<open>\<open>int64_t ref = 0; for (n ...) { ref += refs(n); add_node_ref(ref); }\<close>\<close>

fun way_refs_loop :: "int64 \<Rightarrow> int64 list \<Rightarrow> int64 list" where
  "way_refs_loop ref [] = []"
| "way_refs_loop ref (d # ds) = (ref + d) # way_refs_loop (ref + d) ds"

definition parse_way :: "bool \<Rightarrow> PBFPrimitiveBlockParser \<Rightarrow> pbf_Way \<Rightarrow> error + OSMEntity" where
  "parse_way ndebug p pbf_way =
     bind_e (parse_attributes ndebug p way (w_id pbf_way) (w_info pbf_way)) (\<lambda>object.
     let object =
       (if length (w_refs pbf_way) > 0 then
          object\<lparr>e_nodes := way_refs_loop 0 (w_refs pbf_way)\<rparr>
        else object)
     in
     bind_e (parse_tags (m_stringtable p) (w_keys pbf_way) (w_vals pbf_way)) (\<lambda>tags.
     Inr (object\<lparr>e_tags := tags\<rparr>)))"

fun parse_way_group ::
  "bool \<Rightarrow> PBFPrimitiveBlockParser \<Rightarrow> pbf_Way list \<Rightarrow> OSMEntity list \<Rightarrow> error + OSMEntity list" where
  "parse_way_group ndebug p [] m_buffer = Inr m_buffer"
| "parse_way_group ndebug p (pbf_way # rest) m_buffer =
     bind_e (parse_way ndebug p pbf_way) (\<lambda>object.
     parse_way_group ndebug p rest (m_buffer @ [object]))"

fun osmpbf_membertype_to_item_type :: "MemberType \<Rightarrow> item_type" where
  "osmpbf_membertype_to_item_type NODE = node"
| "osmpbf_membertype_to_item_type WAY = way"
| "osmpbf_membertype_to_item_type RELATION = relation"

text \<open>
  The member loop runs over \<open>types_size()\<close> and reads \<open>memids(n)\<close>, \<open>types(n)\<close> and
  \<open>roles_sid(n)\<close> at the same index.
\<close>

function member_loop ::
  "string list \<Rightarrow> pbf_Relation \<Rightarrow> nat \<Rightarrow> int64 \<Rightarrow> (item_type \<times> int64 \<times> string) list
   \<Rightarrow> error + (item_type \<times> int64 \<times> string) list" where
  "member_loop st r n ref acc =
     (if n < length (r_types r) then
        bind_e (get_at (r_memids r) n) (\<lambda>d.
        let ref = ref + d in
        bind_e (get_at (r_roles_sid r) n) (\<lambda>sid.
        bind_e (s st sid) (\<lambda>role.
        member_loop st r (n + 1) ref
          (acc @ [(osmpbf_membertype_to_item_type (r_types r ! n), ref, role)]))))
      else Inr acc)"
  by pat_completeness auto
termination
  by (relation "measure (\<lambda>(st, r, n, ref, acc). length (r_types r) - n)") auto

declare member_loop.simps [simp del]

definition parse_relation ::
  "bool \<Rightarrow> PBFPrimitiveBlockParser \<Rightarrow> pbf_Relation \<Rightarrow> error + OSMEntity" where
  "parse_relation ndebug p pbf_relation =
     bind_e (parse_attributes ndebug p relation (r_id pbf_relation) (r_info pbf_relation))
       (\<lambda>object.
     bind_e (if length (r_types pbf_relation) > 0
             then member_loop (m_stringtable p) pbf_relation 0 0 []
             else Inr []) (\<lambda>members.
     bind_e (parse_tags (m_stringtable p) (r_keys pbf_relation) (r_vals pbf_relation)) (\<lambda>tags.
     Inr (object\<lparr>e_members := members, e_tags := tags\<rparr>))))"

fun parse_relation_group ::
  "bool \<Rightarrow> PBFPrimitiveBlockParser \<Rightarrow> pbf_Relation list \<Rightarrow> OSMEntity list
   \<Rightarrow> error + OSMEntity list" where
  "parse_relation_group ndebug p [] m_buffer = Inr m_buffer"
| "parse_relation_group ndebug p (pbf_relation # rest) m_buffer =
     bind_e (parse_relation ndebug p pbf_relation) (\<lambda>object.
     parse_relation_group ndebug p rest (m_buffer @ [object]))"

subsection \<open>DenseNodes\<close>

text \<open>
  \<open>add_tags(dense, n, builder)\<close>: the tags of one dense node, read from the cursor
  \<open>n\<close> into \<open>keys_vals\<close>; the result is the tag list and the new cursor. The while loop
  reads the key with \<open>keys_vals(n++)\<close> and the value with \<open>keys_vals(n)\<close>, which is read
  whether or not \<open>n\<close> is still below the size.
\<close>

function add_tags_loop ::
  "string list \<Rightarrow> int32 list \<Rightarrow> nat \<Rightarrow> (string \<times> string) list
   \<Rightarrow> error + ((string \<times> string) list \<times> nat)" where
  "add_tags_loop st keys_vals n acc =
     (if n < length keys_vals then
        (let tag_key_pos = keys_vals ! n; n = n + 1 in
         if tag_key_pos = 0 then Inr (acc, n)
         else
           bind_e (s st tag_key_pos) (\<lambda>k.
           bind_e (get_at keys_vals n) (\<lambda>vi.
           bind_e (s st vi) (\<lambda>v.
           add_tags_loop st keys_vals (n + 1) (acc @ [(k, v)])))))
      else Inr (acc, n))"
  by pat_completeness auto
termination
  by (relation "measure (\<lambda>(st, keys_vals, n, acc). length keys_vals - n)") auto

declare add_tags_loop.simps [simp del]

definition add_tags ::
  "string list \<Rightarrow> int32 list \<Rightarrow> nat \<Rightarrow> error + ((string \<times> string) list \<times> nat)" where
  "add_tags st keys_vals n =
     (if n \<ge> length keys_vals then Inr ([], n)
      else if keys_vals ! n = 0 then Inr ([], n + 1)
      else add_tags_loop st keys_vals n [])"

text \<open>The local variables of \<open>parse_dense_node_group\<close> that live across iterations.\<close>

record dense_state =
  last_dense_id :: int64
  last_dense_latitude :: int64
  last_dense_longitude :: int64
  last_dense_uid :: int64
  last_dense_user_sid :: int64
  last_dense_changeset :: int64
  last_dense_timestamp :: int64
  last_dense_tag :: nat

definition dense_state_init :: dense_state where
  "dense_state_init =
     \<lparr> last_dense_id = 0, last_dense_latitude = 0, last_dense_longitude = 0,
       last_dense_uid = 0, last_dense_user_sid = 0, last_dense_changeset = 0,
       last_dense_timestamp = 0, last_dense_tag = 0 \<rparr>"

text \<open>
  The first half of the loop body: the accumulators advance and, with a denseinfo, the
  four assertions on them are checked. The result is the new state and \<open>visible\<close>.
\<close>

definition dense_advance ::
  "bool \<Rightarrow> DenseNodes \<Rightarrow> nat \<Rightarrow> dense_state \<Rightarrow> error + (dense_state \<times> bool)" where
  "dense_advance ndebug dense i st =
     bind_e (get_at (d_id dense) i) (\<lambda>did.
     bind_e (get_at (d_lat dense) i) (\<lambda>dlat.
     bind_e (get_at (d_lon dense) i) (\<lambda>dlon.
     let st = st\<lparr>last_dense_id := last_dense_id st + did,
                 last_dense_latitude := last_dense_latitude st + dlat,
                 last_dense_longitude := last_dense_longitude st + dlon\<rparr>
     in
     case d_denseinfo dense of
       None \<Rightarrow> Inr (st, True)
     | Some di \<Rightarrow>
         bind_e (get_at (di_changeset di) i) (\<lambda>dcs.
         bind_e (get_at (di_timestamp di) i) (\<lambda>dts.
         bind_e (get_at (di_uid di) i) (\<lambda>duid.
         bind_e (get_at (di_user_sid di) i) (\<lambda>dsid.
         let st = st\<lparr>last_dense_changeset := last_dense_changeset st + dcs,
                     last_dense_timestamp := last_dense_timestamp st + dts,
                     last_dense_uid := last_dense_uid st + scast duid,
                     last_dense_user_sid := last_dense_user_sid st + scast dsid\<rparr>
         in
         bind_e (if length (di_visible di) > 0 then get_at (di_visible di) i else Inr True)
           (\<lambda>visible.
         bind_e (c_assert ndebug (0 \<le> sint (last_dense_changeset st))
                   ''last_dense_changeset >= 0'') (\<lambda>_.
         bind_e (c_assert ndebug (0 \<le> sint (last_dense_timestamp st))
                   ''last_dense_timestamp >= 0'') (\<lambda>_.
         bind_e (c_assert ndebug (- 1 \<le> sint (last_dense_uid st))
                   ''last_dense_uid >= -1'') (\<lambda>_.
         bind_e (c_assert ndebug (0 \<le> sint (last_dense_user_sid st))
                   ''last_dense_user_sid >= 0'') (\<lambda>_.
         Inr (st, visible)))))))))))))"

text \<open>
  The second half: the node is built from the accumulators, its tags are read with
  \<open>add_tags\<close> and the cursor is stored in \<open>last_dense_tag\<close>.
\<close>

definition dense_build ::
  "bool \<Rightarrow> PBFPrimitiveBlockParser \<Rightarrow> DenseNodes \<Rightarrow> nat \<Rightarrow> dense_state \<Rightarrow> bool
   \<Rightarrow> error + (dense_state \<times> OSMEntity)" where
  "dense_build ndebug p dense i st visible =
     (let object = (new_object node)\<lparr>e_id := last_dense_id st\<rparr> in
      bind_e
        (case d_denseinfo dense of
           Some di \<Rightarrow>
             bind_e (get_at (di_version di) i) (\<lambda>v.
             bind_e (c_assert ndebug (0 < sint v) ''v > 0'') (\<lambda>_.
             bind_e (s (m_stringtable p) (scast (last_dense_user_sid st))) (\<lambda>u.
             Inr (object\<lparr>e_version := Some v,
                         e_changeset := Some (ucast (last_dense_changeset st)),
                         e_timestamp := Some (last_dense_timestamp st * m_date_factor p),
                         e_uid := Some (scast (last_dense_uid st)),
                         e_visible := visible,
                         e_user := u\<rparr>))))
         | None \<Rightarrow> Inr (object\<lparr>e_user := []\<rparr>)) (\<lambda>object.
      let object =
        (if visible then
           object\<lparr>e_location := Some
             (coordinate (last_dense_longitude st) (m_granularity p) (m_lon_offset p),
              coordinate (last_dense_latitude st) (m_granularity p) (m_lat_offset p))\<rparr>
         else object)
      in
      bind_e (add_tags (m_stringtable p) (d_keys_vals dense) (last_dense_tag st)) (\<lambda>(tags, n).
      Inr (st\<lparr>last_dense_tag := n\<rparr>, object\<lparr>e_tags := tags\<rparr>))))"

definition dense_step ::
  "bool \<Rightarrow> PBFPrimitiveBlockParser \<Rightarrow> DenseNodes \<Rightarrow> nat \<Rightarrow> dense_state
   \<Rightarrow> error + (dense_state \<times> OSMEntity)" where
  "dense_step ndebug p dense i st =
     bind_e (dense_advance ndebug dense i st) (\<lambda>(st, visible).
     dense_build ndebug p dense i st visible)"

function dense_loop ::
  "bool \<Rightarrow> PBFPrimitiveBlockParser \<Rightarrow> DenseNodes \<Rightarrow> nat \<Rightarrow> dense_state \<Rightarrow> OSMEntity list
   \<Rightarrow> error + OSMEntity list" where
  "dense_loop ndebug p dense i st m_buffer =
     (if i < length (d_id dense) then
        bind_e (dense_step ndebug p dense i st) (\<lambda>(st, object).
        dense_loop ndebug p dense (i + 1) st (m_buffer @ [object]))
      else Inr m_buffer)"
  by pat_completeness auto
termination
  by (relation "measure (\<lambda>(ndebug, p, dense, i, st, m_buffer). length (d_id dense) - i)") auto

declare dense_loop.simps [simp del]

definition parse_dense_node_group ::
  "bool \<Rightarrow> PBFPrimitiveBlockParser \<Rightarrow> DenseNodes \<Rightarrow> OSMEntity list \<Rightarrow> error + OSMEntity list" where
  "parse_dense_node_group ndebug p dense m_buffer =
     dense_loop ndebug p dense 0 dense_state_init m_buffer"

subsection \<open>The block\<close>

text \<open>
  The body of \<open>operator()\<close> after \<open>ParseFromArray\<close>: the parser's members are set from
  the block and the groups are dispatched in order.
\<close>

definition parse_group ::
  "bool \<Rightarrow> PBFPrimitiveBlockParser \<Rightarrow> PrimitiveGroup \<Rightarrow> OSMEntity list \<Rightarrow> error + OSMEntity list" where
  "parse_group ndebug p grp m_buffer =
     (case g_dense grp of
        Some dense \<Rightarrow>
          (if node \<in> m_read_types p then parse_dense_node_group ndebug p dense m_buffer
           else Inr m_buffer)
      | None \<Rightarrow>
          if length (g_ways grp) \<noteq> 0 then
            (if way \<in> m_read_types p then parse_way_group ndebug p (g_ways grp) m_buffer
             else Inr m_buffer)
          else if length (g_relations grp) \<noteq> 0 then
            (if relation \<in> m_read_types p
             then parse_relation_group ndebug p (g_relations grp) m_buffer
             else Inr m_buffer)
          else if length (g_nodes grp) \<noteq> 0 then
            (if node \<in> m_read_types p then parse_node_group ndebug p (g_nodes grp) m_buffer
             else Inr m_buffer)
          else Inl (pbf_error ''group of unknown type''))"

fun parse_groups ::
  "bool \<Rightarrow> PBFPrimitiveBlockParser \<Rightarrow> PrimitiveGroup list \<Rightarrow> OSMEntity list
   \<Rightarrow> error + OSMEntity list" where
  "parse_groups ndebug p [] m_buffer = Inr m_buffer"
| "parse_groups ndebug p (grp # rest) m_buffer =
     bind_e (parse_group ndebug p grp m_buffer) (\<lambda>m_buffer.
     parse_groups ndebug p rest m_buffer)"

definition block_parser :: "item_type set \<Rightarrow> PrimitiveBlock \<Rightarrow> PBFPrimitiveBlockParser" where
  "block_parser read_types pbf_primitive_block =
     \<lparr> m_stringtable = pb_stringtable pbf_primitive_block,
       m_lon_offset = pb_lon_offset pbf_primitive_block,
       m_lat_offset = pb_lat_offset pbf_primitive_block,
       m_date_factor = scast (sdiv_w (pb_date_granularity pbf_primitive_block) 1000),
       m_granularity = pb_granularity pbf_primitive_block,
       m_read_types = read_types \<rparr>"

definition parse_primitive_block ::
  "bool \<Rightarrow> item_type set \<Rightarrow> PrimitiveBlock \<Rightarrow> error + OSMEntity list" where
  "parse_primitive_block ndebug read_types pbf_primitive_block =
     parse_groups ndebug (block_parser read_types pbf_primitive_block)
       (pb_primitivegroup pbf_primitive_block) []"

text \<open>
  \<open>PBFPrimitiveBlockParser::operator()\<close>. \<open>ParseFromArray\<close> belongs to protobuf: it is a
  parameter, \<open>None\<close> when it returns false.
\<close>

definition PBFPrimitiveBlockParser_call ::
  "(8 word list \<Rightarrow> PrimitiveBlock option) \<Rightarrow> bool \<Rightarrow> item_type set \<Rightarrow> 8 word list
   \<Rightarrow> error + OSMEntity list" where
  "PBFPrimitiveBlockParser_call ParseFromArray ndebug read_types m_data =
     (case ParseFromArray m_data of
        None \<Rightarrow> Inl (pbf_error ''failed to parse PrimitiveBlock'')
      | Some pbf_primitive_block \<Rightarrow>
          parse_primitive_block ndebug read_types pbf_primitive_block)"

section \<open>Reading blobs from the input queue\<close>

type_synonym bytes = "8 word list"

text \<open>
  \<open>InputQueueReader\<close>: \<open>m_queue\<close> holds the strings the read thread pushes, in order (it
  pushes an empty string at the end of the input), \<open>m_buffer\<close> the bytes popped and not yet
  handed out. \<open>operator()(data, size)\<close> returns the \<open>size\<close> bytes copied into \<open>data\<close>,
  or \<open>None\<close> where the source returns false; the reader after the call is the second
  component, also when the call fails.
\<close>

record InputQueueReader =
  m_queue :: "bytes list"
  m_buffer :: bytes

fun fill_buffer :: "bytes list \<Rightarrow> bytes \<Rightarrow> nat \<Rightarrow> (error + bool) \<times> InputQueueReader" where
  "fill_buffer q buf sz =
     (if length buf < sz then
        (case q of
           [] \<Rightarrow> (Inl queue_blocked, \<lparr> m_queue = [], m_buffer = buf \<rparr>)
         | new_data # q' \<Rightarrow>
             if new_data = [] then (Inr False, \<lparr> m_queue = q', m_buffer = buf \<rparr>)
             else fill_buffer q' (buf @ new_data) sz)
      else (Inr True, \<lparr> m_queue = q, m_buffer = buf \<rparr>))"

declare fill_buffer.simps [simp del]

definition InputQueueReader_call ::
  "InputQueueReader \<Rightarrow> nat \<Rightarrow> (error + bytes option) \<times> InputQueueReader" where
  "InputQueueReader_call r sz =
     (case fill_buffer (m_queue r) (m_buffer r) sz of
        (Inl e, r') \<Rightarrow> (Inl e, r')
      | (Inr False, r') \<Rightarrow> (Inr None, r')
      | (Inr True, r') \<Rightarrow>
          (Inr (Some (take sz (m_buffer r'))), r'\<lparr>m_buffer := drop sz (m_buffer r')\<rparr>))"

text \<open>Modelled from the spec: the two limits of section 6.1 (\<open>osmpbf.h\<close> is not part of the sources).\<close>

definition max_blob_header_size :: int32 where
  "max_blob_header_size = 64 * 1024"

definition max_uncompressed_blob_size :: int32 where
  "max_uncompressed_blob_size = 32 * 1024 * 1024"

text \<open>\<open>std::to_string\<close> of an \<open>int\<close>.\<close>

fun to_string_nat :: "nat \<Rightarrow> string" where
  "to_string_nat n =
     (if n < 10 then [char_of (48 + n)]
      else to_string_nat (n div 10) @ [char_of (48 + n mod 10)])"

declare to_string_nat.simps [simp del]

definition to_string :: "int \<Rightarrow> string" where
  "to_string i = (if i < 0 then CHR ''-'' # to_string_nat (nat (- i)) else to_string_nat (nat i))"

text \<open>
  \<open>new unsigned char[size]\<close> with \<open>size\<close> an \<open>int\<close>: a negative size throws
  \<open>std::bad_array_new_length\<close>. Running out of memory is not modelled.
\<close>

definition new_unsigned_char_array :: "int32 \<Rightarrow> error + unit" where
  "new_unsigned_char_array sz = (if sint sz < 0 then Inl bad_array_new_length else Inr ())"

text \<open>
  The constructor of \<open>BlobParser\<close>. The member initialisers run first, in the order of the
  members: \<open>m_input_buffer(new unsigned char[size], ...)\<close> comes before the body with its
  check of \<open>size\<close>. The result is the filled \<open>m_input_buffer\<close>.
\<close>

definition BlobParser_init ::
  "int32 \<Rightarrow> InputQueueReader \<Rightarrow> (error + bytes) \<times> InputQueueReader" where
  "BlobParser_init sz input_queue_reader =
     (case new_unsigned_char_array sz of
        Inl e \<Rightarrow> (Inl e, input_queue_reader)
      | Inr _ \<Rightarrow>
          if sint sz < 0 \<or> sint sz > sint max_uncompressed_blob_size then
            (Inl (pbf_error (''invalid blob size: '' @ to_string (sint sz))), input_queue_reader)
          else
            (case InputQueueReader_call input_queue_reader (nat (sint sz)) of
               (Inl e, r) \<Rightarrow> (Inl e, r)
             | (Inr None, r) \<Rightarrow> (Inl (pbf_error ''truncated data (EOF encountered)''), r)
             | (Inr (Some m_input_buffer), r) \<Rightarrow> (Inr m_input_buffer, r)))"

text \<open>
  \<open>HeaderBlobParser\<close> and \<open>DataBlobParser\<close> construct their base class with the size they
  are given and store one more member.
\<close>

definition HeaderBlobParser_init ::
  "int32 \<Rightarrow> InputQueueReader \<Rightarrow> (error + bytes) \<times> InputQueueReader" where
  "HeaderBlobParser_init sz input_queue_reader = BlobParser_init sz input_queue_reader"

definition DataBlobParser_init ::
  "int32 \<Rightarrow> InputQueueReader \<Rightarrow> (error + bytes) \<times> InputQueueReader" where
  "DataBlobParser_init sz input_queue_reader = BlobParser_init sz input_queue_reader"

subsection \<open>The protobuf messages of the framing\<close>

record BlobHeader =
  bh_type :: string
  bh_datasize :: int32

record Blob =
  blob_raw :: "bytes option"
  blob_raw_size :: int32
  blob_zlib_data :: "bytes option"
  blob_lzma_data :: "bytes option"

record HeaderBBox =
  bbox_left :: int64
  bbox_right :: int64
  bbox_top :: int64
  bbox_bottom :: int64

record HeaderBlock =
  hb_bbox :: "HeaderBBox option"
  hb_required_features :: "string list"
  hb_optional_features :: "string list"
  hb_writingprogram :: "string option"
  hb_osmosis_replication_timestamp :: "int64 option"
  hb_osmosis_replication_sequence_number :: "int64 option"
  hb_osmosis_replication_base_url :: "string option"

text \<open>
  What the decoder takes from outside: the \<open>ParseFromArray\<close> functions of the generated
  protobuf classes (\<open>None\<close> when they return false), \<open>zlib_uncompress\<close> and
  \<open>Timestamp::to_iso\<close>.
\<close>

record externals =
  ParseFromArray_BlobHeader :: "bytes \<Rightarrow> BlobHeader option"
  ParseFromArray_Blob :: "bytes \<Rightarrow> Blob option"
  ParseFromArray_HeaderBlock :: "bytes \<Rightarrow> HeaderBlock option"
  ParseFromArray_PrimitiveBlock :: "bytes \<Rightarrow> PrimitiveBlock option"
  zlib_uncompress :: "bytes \<Rightarrow> nat \<Rightarrow> error + bytes"
  to_iso :: "int64 \<Rightarrow> string"

text \<open>\<open>ntohl\<close> of the four bytes read: the big-endian value.\<close>

definition ntohl :: "bytes \<Rightarrow> uint32" where
  "ntohl bs = foldl (\<lambda>acc b. acc * 256 + ucast b) 0 bs"

text \<open>\<open>std::strcmp(type.c_str(), expected_type)\<close> compares up to the first zero character.\<close>

definition c_str :: "string \<Rightarrow> string" where
  "c_str str = takeWhile (\<lambda>c. c \<noteq> CHR 0x00) str"

definition read_blob_header ::
  "externals \<Rightarrow> string \<Rightarrow> InputQueueReader \<Rightarrow> (error + int32) \<times> InputQueueReader" where
  "read_blob_header ext expected_type r =
     (case InputQueueReader_call r 4 of
        (Inl e, r) \<Rightarrow> (Inl e, r)
      | (Inr None, r) \<Rightarrow> (Inr 0, r)
      | (Inr (Some size_in_network_byte_order), r) \<Rightarrow>
          (let sz = ntohl size_in_network_byte_order in
           if uint sz > uint max_blob_header_size then
             (Inl (pbf_error ''invalid BlobHeader size (> max_blob_header_size)''), r)
           else
             (case InputQueueReader_call r (unat sz) of
                (Inl e, r) \<Rightarrow> (Inl e, r)
              | (Inr None, r) \<Rightarrow> (Inl (pbf_error ''read error''), r)
              | (Inr (Some blob_header_buffer), r) \<Rightarrow>
                  (case ParseFromArray_BlobHeader ext blob_header_buffer of
                     None \<Rightarrow> (Inl (pbf_error ''failed to parse BlobHeader''), r)
                   | Some m_blob_header \<Rightarrow>
                       if c_str (bh_type m_blob_header) \<noteq> c_str expected_type then
                         (Inl (pbf_error ''blob does not have expected type (OSMHeader in first blob, OSMData in following blobs)''), r)
                       else (Inr (bh_datasize m_blob_header), r)))))"

text \<open>
  \<open>BlobParser::doit()\<close> and \<open>BlobParser::operator()()\<close> have the same body; \<open>handle_blob\<close>
  is the member of the derived class.
\<close>

definition BlobParser_call ::
  "externals \<Rightarrow> bool \<Rightarrow> (bytes \<Rightarrow> error + 'r) \<Rightarrow> bytes \<Rightarrow> error + 'r" where
  "BlobParser_call ext ndebug handle_blob m_input_buffer =
     (case ParseFromArray_Blob ext m_input_buffer of
        None \<Rightarrow> Inl (pbf_error ''failed to parse blob'')
      | Some pbf_blob \<Rightarrow>
          (case blob_raw pbf_blob of
             Some raw \<Rightarrow> handle_blob raw
           | None \<Rightarrow>
               (case blob_zlib_data pbf_blob of
                  Some zlib_data \<Rightarrow>
                    (let raw_size = blob_raw_size pbf_blob in
                     bind_e (c_assert ndebug (0 \<le> sint raw_size) ''raw_size >= 0'') (\<lambda>_.
                     bind_e (c_assert ndebug (sint raw_size \<le> sint max_uncompressed_blob_size)
                               ''raw_size <= OSMPBF::max_uncompressed_blob_size'') (\<lambda>_.
                     bind_e (zlib_uncompress ext zlib_data (unat (scast raw_size :: 64 word)))
                       handle_blob)))
                | None \<Rightarrow>
                    (case blob_lzma_data pbf_blob of
                       Some _ \<Rightarrow> Inl (pbf_error ''lzma blobs not implemented'')
                     | None \<Rightarrow> Inl (pbf_error ''blob contains no data'')))))"

text \<open>The calls \<open>HeaderBlobParser::handle_blob\<close> makes on \<open>m_header\<close>, in order.\<close>

datatype header_call =
    set_string string string
  | set_bool string bool
  | set_has_multiple_object_versions bool
  | add_box "(int64 \<times> int64)" "(int64 \<times> int64)"

fun required_features_loop :: "string list \<Rightarrow> error + header_call list" where
  "required_features_loop [] = Inr []"
| "required_features_loop (feature # rest) =
     (if feature = ''OsmSchema-V0.6'' then required_features_loop rest
      else if feature = ''DenseNodes'' then
        bind_e (required_features_loop rest) (\<lambda>cs. Inr (set_bool ''pbf_dense_nodes'' True # cs))
      else if feature = ''HistoricalInformation'' then
        bind_e (required_features_loop rest) (\<lambda>cs. Inr (set_has_multiple_object_versions True # cs))
      else Inl (pbf_error (''required feature not supported: '' @ feature)))"

fun optional_features_loop :: "nat \<Rightarrow> string list \<Rightarrow> header_call list" where
  "optional_features_loop i [] = []"
| "optional_features_loop i (feature # rest) =
     set_string (''pbf_optional_feature_'' @ to_string (int i)) feature
       # optional_features_loop (i + 1) rest"

definition HeaderBlobParser_handle_blob :: "externals \<Rightarrow> bytes \<Rightarrow> error + header_call list" where
  "HeaderBlobParser_handle_blob ext data =
     (case ParseFromArray_HeaderBlock ext data of
        None \<Rightarrow> Inl (pbf_error ''failed to parse HeaderBlock'')
      | Some pbf_header_block \<Rightarrow>
          bind_e (required_features_loop (hb_required_features pbf_header_block)) (\<lambda>req.
          let resolution_convert = sdiv_w lonlat_resolution coordinate_precision in
          Inr (req
            @ optional_features_loop 0 (hb_optional_features pbf_header_block)
            @ (case hb_writingprogram pbf_header_block of
                 Some w \<Rightarrow> [set_string ''generator'' w] | None \<Rightarrow> [])
            @ (case hb_bbox pbf_header_block of
                 Some pbf_bbox \<Rightarrow>
                   [add_box
                      (sdiv_w (bbox_left pbf_bbox) resolution_convert,
                       sdiv_w (bbox_bottom pbf_bbox) resolution_convert)
                      (sdiv_w (bbox_right pbf_bbox) resolution_convert,
                       sdiv_w (bbox_top pbf_bbox) resolution_convert)]
               | None \<Rightarrow> [])
            @ (case hb_osmosis_replication_timestamp pbf_header_block of
                 Some ts \<Rightarrow> [set_string ''osmosis_replication_timestamp'' (to_iso ext ts)]
               | None \<Rightarrow> [])
            @ (case hb_osmosis_replication_sequence_number pbf_header_block of
                 Some n \<Rightarrow> [set_string ''osmosis_replication_sequence_number'' (to_string (sint n))]
               | None \<Rightarrow> [])
            @ (case hb_osmosis_replication_base_url pbf_header_block of
                 Some u \<Rightarrow> [set_string ''osmosis_replication_base_url'' u]
               | None \<Rightarrow> []))))"

definition DataBlobParser_handle_blob ::
  "externals \<Rightarrow> bool \<Rightarrow> item_type set \<Rightarrow> bytes \<Rightarrow> error + OSMEntity list" where
  "DataBlobParser_handle_blob ext ndebug read_types data =
     PBFPrimitiveBlockParser_call (ParseFromArray_PrimitiveBlock ext) ndebug read_types data"

text \<open>
  The constructor of \<open>PBFInputFormat\<close> up to the start of the reader thread: the header
  blob is read and handled. The result is the list of calls made on \<open>m_header\<close> and the
  reader the thread goes on with.
\<close>

definition PBFInputFormat_init ::
  "externals \<Rightarrow> bool \<Rightarrow> bytes list \<Rightarrow> error + (header_call list \<times> InputQueueReader)" where
  "PBFInputFormat_init ext ndebug input_queue =
     (let m_input_queue_reader = \<lparr> m_queue = input_queue, m_buffer = [] \<rparr> in
      case read_blob_header ext ''OSMHeader'' m_input_queue_reader of
        (Inl e, r) \<Rightarrow> Inl e
      | (Inr sz, r) \<Rightarrow>
          (case HeaderBlobParser_init sz r of
             (Inl e, r) \<Rightarrow> Inl e
           | (Inr m_input_buffer, r) \<Rightarrow>
               bind_e (BlobParser_call ext ndebug (HeaderBlobParser_handle_blob ext) m_input_buffer)
                 (\<lambda>m_header. Inr (m_header, r))))"

section \<open>The relation collector\<close>

text \<open>
  Modelled from the spec: \<open>osmium::memory::Buffer\<close> (\<open>osmium/memory/buffer.hpp\<close> is not part
  of the sources), after section 3: an append-only region with a write head and a committed
  watermark; a partial write is rolled back by resetting the write head to the watermark.
  \<open>b_data\<close> maps the offset at which an item starts to the item; the size an item takes
  is a parameter of \<open>add_item\<close>.
\<close>

record 'a Buffer =
  b_data :: "nat \<Rightarrow> 'a option"
  b_written :: nat
  b_committed :: nat

definition Buffer_new :: "'a Buffer" where
  "Buffer_new = \<lparr> b_data = (\<lambda>_. None), b_written = 0, b_committed = 0 \<rparr>"

definition add_item :: "('a \<Rightarrow> nat) \<Rightarrow> 'a \<Rightarrow> 'a Buffer \<Rightarrow> 'a Buffer" where
  "add_item item_size item b =
     b\<lparr>b_data := (b_data b)(b_written b \<mapsto> item), b_written := b_written b + item_size item\<rparr>"

definition commit :: "'a Buffer \<Rightarrow> 'a Buffer" where
  "commit b = b\<lparr>b_committed := b_written b\<rparr>"

definition rollback :: "'a Buffer \<Rightarrow> 'a Buffer" where
  "rollback b = b\<lparr>b_written := b_committed b\<rparr>"

definition get :: "'a Buffer \<Rightarrow> nat \<Rightarrow> error + 'a" where
  "get b offset = (case b_data b offset of None \<Rightarrow> Inl out_of_range_read | Some x \<Rightarrow> Inr x)"

text \<open>
  Modelled from the spec: \<open>RelationMeta\<close> (\<open>osmium/relations/detail/relation_meta.hpp\<close> is
  not part of the sources) is the \<open>RelationSlot\<close> of section 3, with the offset of the
  relation and the counts of members needed and found; completion is
  \<open>members_found == members_needed\<close>. The default-constructed value is the tombstone.
\<close>

record RelationMeta =
  relation_offset :: nat
  members_needed :: nat
  members_found :: nat

definition RelationMeta_default :: RelationMeta where
  "RelationMeta_default = \<lparr> relation_offset = 0, members_needed = 0, members_found = 0 \<rparr>"

definition RelationMeta_new :: "nat \<Rightarrow> RelationMeta" where
  "RelationMeta_new offset = \<lparr> relation_offset = offset, members_needed = 0, members_found = 0 \<rparr>"

definition increment_need_members :: "RelationMeta \<Rightarrow> RelationMeta" where
  "increment_need_members rm = rm\<lparr>members_needed := members_needed rm + 1\<rparr>"

definition got_one_member :: "RelationMeta \<Rightarrow> RelationMeta" where
  "got_one_member rm = rm\<lparr>members_found := members_found rm + 1\<rparr>"

definition has_all_members :: "RelationMeta \<Rightarrow> bool" where
  "has_all_members rm \<longleftrightarrow> members_found rm = members_needed rm"

text \<open>
  Modelled from the spec: \<open>MemberMeta\<close> (\<open>osmium/relations/detail/member_meta.hpp\<close> is not
  part of the sources) is the \<open>MemberMetaEntry\<close> of section 3; entries are ordered by
  \<open>member_id\<close>.
\<close>

record MemberMeta =
  member_id :: int64
  relation_pos :: nat
  member_pos :: nat
  buffer_offset :: "nat option"

definition MemberMeta_new :: "int64 \<Rightarrow> nat \<Rightarrow> nat \<Rightarrow> MemberMeta" where
  "MemberMeta_new mid rpos mpos =
     \<lparr> member_id = mid, relation_pos = rpos, member_pos = mpos, buffer_offset = None \<rparr>"

type_synonym RelationMember = "item_type \<times> int64 \<times> string"

text \<open>
  The calls made on the hooks of the derived class, in order; \<open>complete_relation\<close> is
  recorded with the index of the slot and the \<open>RelationMeta\<close> it is given.
\<close>

datatype hook_call =
    complete_relation nat RelationMeta
  | not_in_any_relation item_type int64

text \<open>
  The derived class \<open>TCollector\<close>: its template flags and the hooks that return a value.
  Two functions of the missing \<open>Buffer\<close> are taken with it: the size of an item and
  \<open>purge_deleted\<close>. Modelled from the spec (section 4.6): the purge compacts the buffer
  and reports every surviving entry that moves; it is given here by the moves
  \<open>(old_offset, new_offset)\<close>, in order, and the compacted buffer.

  \<open>std::sort\<close> is taken with it as well. It is not a stable sort: it returns some
  permutation of the vector that is ordered by \<open>operator<\<close>, and which one it returns
  for entries that compare equal is not fixed by the language; no order of such entries is
  therefore built into the model, the function is the field \<open>std_sort\<close>.
\<close>

record TCollector =
  TNodes :: bool
  TWays :: bool
  TRelations :: bool
  keep_relation :: "OSMEntity \<Rightarrow> bool"
  keep_member :: "RelationMeta \<Rightarrow> RelationMember \<Rightarrow> bool"
  padded_size :: "OSMEntity \<Rightarrow> nat"
  purge_deleted :: "OSMEntity Buffer \<Rightarrow> (nat \<times> nat) list \<times> OSMEntity Buffer"
  std_sort :: "MemberMeta list \<Rightarrow> MemberMeta list"

record Collector =
  m_relations_buffer :: "OSMEntity Buffer"
  m_members_buffer :: "OSMEntity Buffer"
  m_relations :: "RelationMeta list"
  m_member_meta :: "item_type \<Rightarrow> MemberMeta list"
  m_count_complete :: int
  m_calls :: "hook_call list"

definition Collector_new :: Collector where
  "Collector_new =
     \<lparr> m_relations_buffer = Buffer_new, m_members_buffer = Buffer_new, m_relations = [],
       m_member_meta = (\<lambda>_. []), m_count_complete = 0, m_calls = [] \<rparr>"

subsection \<open>Pass 1\<close>

text \<open>
  The member loop of \<open>add_relation\<close>: \<open>rpos\<close> is \<open>m_relations.size()\<close>, \<open>n\<close> the position
  of the member. The result is the members of the stored copy after the loop, the member
  index and \<open>relation_meta\<close>.
\<close>

fun add_relation_members ::
  "TCollector \<Rightarrow> nat \<Rightarrow> RelationMember list \<Rightarrow> nat \<Rightarrow> (item_type \<Rightarrow> MemberMeta list)
   \<Rightarrow> RelationMeta \<Rightarrow> RelationMember list \<times> (item_type \<Rightarrow> MemberMeta list) \<times> RelationMeta" where
  "add_relation_members T rpos [] n mm relation_meta = ([], mm, relation_meta)"
| "add_relation_members T rpos (member # rest) n mm relation_meta =
     (if keep_member T relation_meta member then
        (case add_relation_members T rpos rest (n + 1)
                (mm(fst member := mm (fst member) @ [MemberMeta_new (fst (snd member)) rpos n]))
                (increment_need_members relation_meta) of
           (ms, mm', rm') \<Rightarrow> (member # ms, mm', rm'))
      else
        (case add_relation_members T rpos rest (n + 1) mm relation_meta of
           (ms, mm', rm') \<Rightarrow> ((fst member, 0, snd (snd member)) # ms, mm', rm')))"

definition add_relation :: "TCollector \<Rightarrow> bool \<Rightarrow> Collector \<Rightarrow> OSMEntity \<Rightarrow> error + Collector" where
  "add_relation T ndebug c rel =
     (let offset = b_committed (m_relations_buffer c);
          buf = add_item (padded_size T) rel (m_relations_buffer c)
      in
      bind_e (get buf offset) (\<lambda>stored.
      case add_relation_members T (length (m_relations c)) (e_members stored) 0
             (m_member_meta c) (RelationMeta_new offset) of
        (members, mm, relation_meta) \<Rightarrow>
          (let buf = buf\<lparr>b_data := (b_data buf)(offset \<mapsto> stored\<lparr>e_members := members\<rparr>)\<rparr> in
           bind_e (c_assert ndebug (offset = b_committed buf)
                     ''offset == m_relations_buffer.committed()'') (\<lambda>_.
           if has_all_members relation_meta then
             Inr (c\<lparr>m_relations_buffer := rollback buf, m_member_meta := mm\<rparr>)
           else
             Inr (c\<lparr>m_relations_buffer := commit buf, m_member_meta := mm,
                    m_relations := m_relations c @ [relation_meta]\<rparr>)))))"

definition HandlerPass1_relation ::
  "TCollector \<Rightarrow> bool \<Rightarrow> Collector \<Rightarrow> OSMEntity \<Rightarrow> error + Collector" where
  "HandlerPass1_relation T ndebug c rel =
     (if keep_relation T rel then add_relation T ndebug c rel else Inr c)"

text \<open>\<open>osmium::apply(source, handler)\<close> with the first handler, which has \<open>relation()\<close> only.\<close>

fun apply_pass1 :: "TCollector \<Rightarrow> bool \<Rightarrow> Collector \<Rightarrow> OSMEntity list \<Rightarrow> error + Collector" where
  "apply_pass1 T ndebug c [] = Inr c"
| "apply_pass1 T ndebug c (object # rest) =
     bind_e (if e_type object = relation then HandlerPass1_relation T ndebug c object else Inr c)
       (\<lambda>c. apply_pass1 T ndebug c rest)"

text \<open>
  \<open>sort_member_meta\<close> calls \<open>std::sort\<close> on each of the three vectors of the index.
\<close>

definition sort_member_meta :: "TCollector \<Rightarrow> Collector \<Rightarrow> Collector" where
  "sort_member_meta T c =
     c\<lparr>m_member_meta := (\<lambda>t. std_sort T (m_member_meta c t))\<rparr>"

definition read_relations ::
  "TCollector \<Rightarrow> bool \<Rightarrow> Collector \<Rightarrow> OSMEntity list \<Rightarrow> error + Collector" where
  "read_relations T ndebug c source =
     bind_e (apply_pass1 T ndebug c source) (\<lambda>c. Inr (sort_member_meta T c))"

subsection \<open>Pass 2\<close>

text \<open>
  \<open>std::equal_range(mmv.begin(), mmv.end(), MemberMeta(id))\<close> on a vector sorted by
  \<open>member_id\<close>: the positions of the first entry not below \<open>id\<close> and of the first entry
  above it.
\<close>

definition equal_range :: "MemberMeta list \<Rightarrow> int64 \<Rightarrow> nat \<times> nat" where
  "equal_range mmv v =
     (length (takeWhile (\<lambda>m. sint (member_id m) < sint v) mmv),
      length (takeWhile (\<lambda>m. \<not> sint v < sint (member_id m)) mmv))"

function moving_loop ::
  "bool \<Rightarrow> nat \<Rightarrow> nat \<Rightarrow> MemberMeta list \<Rightarrow> nat \<Rightarrow> nat \<Rightarrow> error + MemberMeta list" where
  "moving_loop ndebug old_offset new_offset mmv it range_end =
     (if it < range_end then
        bind_e (c_assert ndebug (buffer_offset (mmv ! it) = Some old_offset)
                  ''it->buffer_offset() == old_offset'') (\<lambda>_.
        moving_loop ndebug old_offset new_offset
          (mmv[it := (mmv ! it)\<lparr>buffer_offset := Some new_offset\<rparr>]) (it + 1) range_end)
      else Inr mmv)"
  by pat_completeness auto
termination
  by (relation "measure (\<lambda>(ndebug, old_offset, new_offset, mmv, it, range_end). range_end - it)") auto

declare moving_loop.simps [simp del]

definition moving_in_buffer :: "bool \<Rightarrow> Collector \<Rightarrow> nat \<Rightarrow> nat \<Rightarrow> error + Collector" where
  "moving_in_buffer ndebug c old_offset new_offset =
     bind_e (get (m_members_buffer c) old_offset) (\<lambda>object.
     let mmv = m_member_meta c (e_type object) in
     case equal_range mmv (e_id object) of
       (first, second) \<Rightarrow>
         bind_e (moving_loop ndebug old_offset new_offset mmv first second) (\<lambda>mmv.
         Inr (c\<lparr>m_member_meta := (m_member_meta c)(e_type object := mmv)\<rparr>)))"

fun apply_moves :: "bool \<Rightarrow> Collector \<Rightarrow> (nat \<times> nat) list \<Rightarrow> error + Collector" where
  "apply_moves ndebug c [] = Inr c"
| "apply_moves ndebug c ((old_offset, new_offset) # rest) =
     bind_e (moving_in_buffer ndebug c old_offset new_offset) (\<lambda>c.
     apply_moves ndebug c rest)"

definition possibly_purge_deleted_members ::
  "TCollector \<Rightarrow> bool \<Rightarrow> Collector \<Rightarrow> error + Collector" where
  "possibly_purge_deleted_members T ndebug c =
     (let c = c\<lparr>m_count_complete := m_count_complete c + 1\<rparr> in
      if m_count_complete c > 1000 then
        (case purge_deleted T (m_members_buffer c) of
           (moves, purged) \<Rightarrow>
             bind_e (apply_moves ndebug c moves) (\<lambda>c.
             Inr (c\<lparr>m_members_buffer := purged, m_count_complete := 0\<rparr>)))
      else Inr c)"

text \<open>
  The body of the loop of \<open>find_and_add_object\<close> over the range, for the entry at \<open>it\<close>;
  \<open>pos\<close> is the offset of the copy of \<open>object\<close> in the members buffer.
\<close>

definition find_step ::
  "TCollector \<Rightarrow> bool \<Rightarrow> OSMEntity \<Rightarrow> nat \<Rightarrow> nat \<Rightarrow> Collector \<Rightarrow> error + Collector" where
  "find_step T ndebug object pos it c =
     (let mmv = m_member_meta c (e_type object);
          member_meta = (mmv ! it)\<lparr>buffer_offset := Some pos\<rparr>;
          c = c\<lparr>m_member_meta := (m_member_meta c)(e_type object := mmv[it := member_meta])\<rparr>
      in
      bind_e (c_assert ndebug (member_id member_meta = e_id object)
                ''member_meta.member_id() == object.id()'') (\<lambda>_.
      bind_e (c_assert ndebug (relation_pos member_meta < length (m_relations c))
                ''member_meta.relation_pos() < m_collector.m_relations.size()'') (\<lambda>_.
      bind_e (get_at (m_relations c) (relation_pos member_meta)) (\<lambda>relation_meta.
      bind_e (if ndebug then Inr ()
              else bind_e (get (m_relations_buffer c) (relation_offset relation_meta)) (\<lambda>rel.
                   c_assert ndebug (member_pos member_meta < length (e_members rel))
                     ''member_meta.member_pos() < m_collector.get_relation(relation_meta).members().size()''))
        (\<lambda>_.
      let relation_meta = got_one_member relation_meta;
          c = c\<lparr>m_relations := (m_relations c)[relation_pos member_meta := relation_meta]\<rparr>
      in
      if has_all_members relation_meta then
        (let pos = relation_pos member_meta;
             c = c\<lparr>m_calls := m_calls c @ [complete_relation pos relation_meta]\<rparr>;
             c = c\<lparr>m_relations := (m_relations c)[pos := RelationMeta_default]\<rparr>
         in possibly_purge_deleted_members T ndebug c)
      else Inr c)))))"

function find_loop ::
  "TCollector \<Rightarrow> bool \<Rightarrow> OSMEntity \<Rightarrow> nat \<Rightarrow> nat \<Rightarrow> nat \<Rightarrow> Collector \<Rightarrow> error + Collector" where
  "find_loop T ndebug object pos it range_end c =
     (if it < range_end then
        bind_e (find_step T ndebug object pos it c) (\<lambda>c.
        find_loop T ndebug object pos (it + 1) range_end c)
      else Inr c)"
  by pat_completeness auto
termination
  by (relation "measure (\<lambda>(T, ndebug, object, pos, it, range_end, c). range_end - it)") auto

declare find_loop.simps [simp del]

definition find_and_add_object ::
  "TCollector \<Rightarrow> bool \<Rightarrow> Collector \<Rightarrow> OSMEntity \<Rightarrow> error + (bool \<times> Collector)" where
  "find_and_add_object T ndebug c object =
     (case equal_range (m_member_meta c (e_type object)) (e_id object) of
        (first, second) \<Rightarrow>
          if first = second then Inr (False, c)
          else
            (let pos = b_committed (m_members_buffer c);
                 c = c\<lparr>m_members_buffer :=
                         commit (add_item (padded_size T) object (m_members_buffer c))\<rparr>
             in
             bind_e (find_loop T ndebug object pos first second c) (\<lambda>c. Inr (True, c))))"

text \<open>\<open>HandlerPass2::node\<close>, \<open>way\<close> and \<open>relation\<close>, by the type of the object.\<close>

definition wanted :: "TCollector \<Rightarrow> item_type \<Rightarrow> bool" where
  "wanted T t = (case t of node \<Rightarrow> TNodes T | way \<Rightarrow> TWays T | relation \<Rightarrow> TRelations T)"

definition HandlerPass2_object ::
  "TCollector \<Rightarrow> bool \<Rightarrow> Collector \<Rightarrow> OSMEntity \<Rightarrow> error + Collector" where
  "HandlerPass2_object T ndebug c object =
     (if wanted T (e_type object) then
        bind_e (find_and_add_object T ndebug c object) (\<lambda>(found, c).
        if \<not> found then
          Inr (c\<lparr>m_calls := m_calls c @ [not_in_any_relation (e_type object) (e_id object)]\<rparr>)
        else Inr c)
      else Inr c)"

text \<open>\<open>osmium::apply(source, handler)\<close> with the second handler.\<close>

fun apply_pass2 :: "TCollector \<Rightarrow> bool \<Rightarrow> Collector \<Rightarrow> OSMEntity list \<Rightarrow> error + Collector" where
  "apply_pass2 T ndebug c [] = Inr c"
| "apply_pass2 T ndebug c (object # rest) =
     bind_e (HandlerPass2_object T ndebug c object) (\<lambda>c. apply_pass2 T ndebug c rest)"

text \<open>The slots for which \<open>complete_relation\<close> has been called, in order.\<close>

fun completed_slots :: "hook_call list \<Rightarrow> nat list" where
  "completed_slots [] = []"
| "completed_slots (complete_relation p rm # calls) = p # completed_slots calls"
| "completed_slots (not_in_any_relation t i # calls) = completed_slots calls"

section \<open>Specification-level functions\<close>

text \<open>
  The functions of this section follow the words of the specification, not the code; the
  theorems compare them with the functions translated from the code.

  The glossary's delta encoding: the wire array holds \<open>x[i] - x[i-1]\<close> with
  \<open>x[-1] = 0\<close>, and decoding is the prefix sum.
\<close>

definition prefix_sums :: "int64 list \<Rightarrow> int64 list" where
  "prefix_sums xs = map (\<lambda>k. sum_list (take (Suc k) xs)) [0..<length xs]"

text \<open>
  Section 4.4, tag consumption: from the cursor, pairs \<open>(key_sid, value_sid)\<close> are consumed
  until the key is 0, which is consumed too, or the stream is at its end. The result is
  the pairs and the rest of the stream. A key with no value after it is not a pair: the
  specification gives it no meaning (\<open>None\<close>). \<open>spec_dense_tags n\<close> cuts the segments
  of \<open>n\<close> nodes one after the other; \<open>tag_strings\<close> looks the pairs up in the string
  table.
\<close>

fun spec_node_tags :: "int32 list \<Rightarrow> ((int32 \<times> int32) list \<times> int32 list) option" where
  "spec_node_tags [] = Some ([], [])"
| "spec_node_tags (k # rest) =
     (if k = 0 then Some ([], rest)
      else case rest of
        [] \<Rightarrow> None
      | v # rest' \<Rightarrow>
          (case spec_node_tags rest' of
             None \<Rightarrow> None
           | Some (pairs, remaining) \<Rightarrow> Some ((k, v) # pairs, remaining)))"

fun spec_dense_tags :: "nat \<Rightarrow> int32 list \<Rightarrow> (int32 \<times> int32) list list option" where
  "spec_dense_tags 0 keys_vals = Some []"
| "spec_dense_tags (Suc n) keys_vals =
     (case spec_node_tags keys_vals of
        None \<Rightarrow> None
      | Some (pairs, remaining) \<Rightarrow>
          (case spec_dense_tags n remaining of
             None \<Rightarrow> None
           | Some segments \<Rightarrow> Some (pairs # segments)))"

definition tag_strings :: "string list \<Rightarrow> (int32 \<times> int32) list \<Rightarrow> (string \<times> string) list" where
  "tag_strings st pairs = map (\<lambda>(k, v). (st ! nat (sint k), st ! nat (sint v))) pairs"

text \<open>
  Section 7, the taxonomy of errors, on the messages of \<open>pbf_error\<close>: an unexpected end
  of the input is \<open>Truncated\<close>, \<open>lzma\<close> data and an unknown required feature are
  \<open>Unsupported\<close>, everything else the decoder throws is \<open>Corrupt\<close>.
\<close>

datatype error_kind = Truncated | Corrupt | Unsupported

definition error_kind :: "error \<Rightarrow> error_kind option" where
  "error_kind e =
     (case e of
        pbf_error what \<Rightarrow>
          if what = ''truncated data (EOF encountered)'' \<or> what = ''read error''
          then Some Truncated
          else if what = ''lzma blobs not implemented''
                  \<or> take 32 what = ''required feature not supported: ''
          then Some Unsupported
          else Some Corrupt
      | _ \<Rightarrow> None)"

section \<open>Notions used in the proofs\<close>

text \<open>
  The invariant of the loop over a dense group: before step \<open>i\<close> every accumulator holds
  the sum of the first \<open>i\<close> deltas of its array.
\<close>

definition dense_sums :: "DenseNodes \<Rightarrow> nat \<Rightarrow> dense_state \<Rightarrow> bool" where
  "dense_sums dense i st \<longleftrightarrow>
     last_dense_id st = sum_list (take i (d_id dense)) \<and>
     last_dense_latitude st = sum_list (take i (d_lat dense)) \<and>
     last_dense_longitude st = sum_list (take i (d_lon dense)) \<and>
     (case d_denseinfo dense of
        None \<Rightarrow> True
      | Some di \<Rightarrow>
          last_dense_changeset st = sum_list (take i (di_changeset di)) \<and>
          last_dense_timestamp st = sum_list (take i (di_timestamp di)) \<and>
          last_dense_uid st = sum_list (map scast (take i (di_uid di))) \<and>
          last_dense_user_sid st = sum_list (map scast (take i (di_user_sid di))))"

text \<open>The errors the decoding of a dense group can end in.\<close>

definition dense_error :: "bool \<Rightarrow> error \<Rightarrow> bool" where
  "dense_error ndebug e \<longleftrightarrow>
     e = out_of_range_read \<or> (\<not> ndebug \<and> (\<exists>what. e = assertion_failed what))"

text \<open>
  What the second pass never changes in the member index: the ids and the slots of the
  entries.
\<close>

definition index_shape :: "(item_type \<Rightarrow> MemberMeta list) \<Rightarrow> item_type \<Rightarrow> (int64 \<times> nat) list" where
  "index_shape mm t = map (\<lambda>e. (member_id e, relation_pos e)) (mm t)"

text \<open>
  One iteration of the loop of \<open>find_and_add_object\<close>, seen from the slots alone: the
  slot vector and the list of the slots \<open>complete_relation\<close> was called for. The slots an
  object hits are those of the entries in its equal range, in order; \<open>hit_slots\<close> are the
  slots hit by the objects of a whole pass.
\<close>

definition slot_step :: "nat \<Rightarrow> RelationMeta list \<times> nat list \<Rightarrow> RelationMeta list \<times> nat list" where
  "slot_step p slots =
     (case slots of (rs, finished) \<Rightarrow>
        let rm = got_one_member (rs ! p) in
        if has_all_members rm then (rs[p := RelationMeta_default], finished @ [p])
        else (rs[p := rm], finished))"

definition slots_of :: "Collector \<Rightarrow> RelationMeta list \<times> nat list" where
  "slots_of c = (m_relations c, completed_slots (m_calls c))"

fun complete_call_ok :: "hook_call \<Rightarrow> bool" where
  "complete_call_ok (complete_relation p rm) = has_all_members rm"
| "complete_call_ok (not_in_any_relation t i) = True"

definition range_hits :: "MemberMeta list \<Rightarrow> nat \<Rightarrow> nat \<Rightarrow> nat list" where
  "range_hits mmv first second = map relation_pos (take (second - first) (drop first mmv))"

definition object_hits :: "TCollector \<Rightarrow> (item_type \<Rightarrow> MemberMeta list) \<Rightarrow> OSMEntity \<Rightarrow> nat list" where
  "object_hits T mm object =
     (if wanted T (e_type object) then
        (case equal_range (mm (e_type object)) (e_id object) of
           (first, second) \<Rightarrow> range_hits (mm (e_type object)) first second)
      else [])"

text \<open>
  What the language guarantees of \<open>std::sort\<close> on a vector of index entries: the result
  is ordered by \<open>member_id\<close> and has the entries of the argument, each as often.
\<close>

definition is_std_sort :: "(MemberMeta list \<Rightarrow> MemberMeta list) \<Rightarrow> bool" where
  "is_std_sort f \<longleftrightarrow>
     (\<forall>xs. sorted (map (\<lambda>m. sint (member_id m)) (f xs)) \<and>
           (\<forall>m. count_list (f xs) m = count_list xs m))"

definition hit_slots :: "TCollector \<Rightarrow> (item_type \<Rightarrow> MemberMeta list) \<Rightarrow> OSMEntity list \<Rightarrow> nat list" where
  "hit_slots T mm objs = concat (map (object_hits T mm) objs)"

section \<open>Example inputs\<close>

text \<open>
  Concrete inputs at which the theorems below are evaluated. \<open>example_parser\<close> has the
  string table of the dense-tags scenario, granularity 100 and date factor 1.
\<close>

definition example_parser :: PBFPrimitiveBlockParser where
  "example_parser =
     \<lparr> m_stringtable = [[], ''k1'', ''v1'', ''k2'', ''v2''], m_lon_offset = 0, m_lat_offset = 0,
       m_date_factor = 1, m_granularity = 100, m_read_types = {node, way, relation} \<rparr>"

definition example_block :: "PrimitiveGroup list \<Rightarrow> int32 \<Rightarrow> PrimitiveBlock" where
  "example_block groups dg =
     \<lparr> pb_stringtable = [[], ''k1'', ''v1'', ''k2'', ''v2''], pb_primitivegroup = groups,
       pb_granularity = 100, pb_lat_offset = 0, pb_lon_offset = 0, pb_date_granularity = dg \<rparr>"

definition dense_group :: "DenseNodes \<Rightarrow> PrimitiveGroup" where
  "dense_group d = \<lparr> g_nodes = [], g_dense = Some d, g_ways = [], g_relations = [] \<rparr>"

text \<open>
  A block with a granularity and offsets of its own, so that the offsets and the division
  by 100 show, and a group of plain nodes.
\<close>

definition offset_block :: "PrimitiveGroup list \<Rightarrow> PrimitiveBlock" where
  "offset_block groups =
     \<lparr> pb_stringtable = [[]], pb_primitivegroup = groups,
       pb_granularity = 10, pb_lat_offset = 500, pb_lon_offset = 1050,
       pb_date_granularity = 1000 \<rparr>"

definition node_group :: "pbf_Node list \<Rightarrow> PrimitiveGroup" where
  "node_group ns = \<lparr> g_nodes = ns, g_dense = None, g_ways = [], g_relations = [] \<rparr>"

definition dense_node :: "int64 \<Rightarrow> int64 \<Rightarrow> int64 \<Rightarrow> OSMEntity" where
  "dense_node i lon lat = (new_object node)\<lparr>e_id := i, e_location := Some (lon, lat)\<rparr>"

definition with_info :: "OSMEntity \<Rightarrow> int64 \<Rightarrow> OSMEntity" where
  "with_info obj ts =
     obj\<lparr>e_version := Some 1, e_changeset := Some 1, e_timestamp := Some ts, e_uid := Some 1\<rparr>"

definition example_way :: pbf_Way where
  "example_way = \<lparr> w_id = 1, w_keys = [], w_vals = [], w_info = None, w_refs = [100, 5, - 10] \<rparr>"

definition example_relation :: pbf_Relation where
  "example_relation =
     \<lparr> r_id = 1, r_keys = [], r_vals = [], r_info = None, r_roles_sid = [0, 0],
       r_memids = [7, 1], r_types = [WAY, WAY] \<rparr>"

definition long_memids_relation :: pbf_Relation where
  "long_memids_relation =
     \<lparr> r_id = 1, r_keys = [], r_vals = [], r_info = None, r_roles_sid = [0],
       r_memids = [5, 3], r_types = [WAY] \<rparr>"

definition example_node :: pbf_Node where
  "example_node =
     \<lparr> n_id = 5, n_keys = [], n_vals = [], n_info = None, n_lat = 199, n_lon = - 250 \<rparr>"

definition example_info :: Info where
  "example_info =
     \<lparr> info_version = 1, info_timestamp = 1400000000, info_changeset = 1, info_uid = 1,
       info_user_sid = 0, info_visible = None \<rparr>"

definition example_denseinfo :: DenseInfo where
  "example_denseinfo =
     \<lparr> di_version = [1], di_timestamp = [1400000000], di_changeset = [1], di_uid = [1],
       di_user_sid = [0], di_visible = [] \<rparr>"

definition node_with_info :: pbf_Node where
  "node_with_info =
     \<lparr> n_id = 5, n_keys = [], n_vals = [], n_info = Some example_info, n_lat = 199, n_lon = - 250 \<rparr>"

definition way_with_info :: pbf_Way where
  "way_with_info =
     \<lparr> w_id = 1, w_keys = [], w_vals = [], w_info = Some example_info, w_refs = [] \<rparr>"

definition relation_with_info :: pbf_Relation where
  "relation_with_info =
     \<lparr> r_id = 1, r_keys = [], r_vals = [], r_info = Some example_info, r_roles_sid = [],
       r_memids = [], r_types = [] \<rparr>"


definition single_dense :: DenseNodes where
  "single_dense =
     \<lparr> d_id = [7], d_denseinfo = None, d_lat = [- 1], d_lon = [- 250], d_keys_vals = [] \<rparr>"

definition dense_with_info :: DenseNodes where
  "dense_with_info =
     \<lparr> d_id = [7], d_denseinfo = Some example_denseinfo, d_lat = [- 1], d_lon = [- 250],
       d_keys_vals = [] \<rparr>"

definition dense_tags_example :: DenseNodes where
  "dense_tags_example =
     \<lparr> d_id = [1, 1], d_denseinfo = None, d_lat = [0, 0], d_lon = [0, 0],
       d_keys_vals = [1, 2, 0, 3, 4, 0] \<rparr>"

definition bad_dense :: DenseNodes where
  "bad_dense =
     \<lparr> d_id = [7], d_denseinfo = Some (example_denseinfo\<lparr>di_timestamp := [- 1]\<rparr>),
       d_lat = [- 1], d_lon = [- 250], d_keys_vals = [] \<rparr>"

definition bad_sid_dense :: DenseNodes where
  "bad_sid_dense =
     \<lparr> d_id = [7], d_denseinfo = Some (example_denseinfo\<lparr>di_user_sid := [- 1]\<rparr>),
       d_lat = [- 1], d_lon = [- 250], d_keys_vals = [] \<rparr>"

text \<open>
  A stand-in for protobuf at the empty array: zero bytes parse as the message with no field
  set (no field of \<open>Blob\<close> is required); no theorem uses it at another input.
\<close>

definition empty_message_protobuf :: externals where
  "empty_message_protobuf =
     \<lparr> ParseFromArray_BlobHeader = (\<lambda>bs. None),
       ParseFromArray_Blob = (\<lambda>bs. if bs = [] then
          Some \<lparr> blob_raw = None, blob_raw_size = 0, blob_zlib_data = None, blob_lzma_data = None \<rparr>
          else None),
       ParseFromArray_HeaderBlock = (\<lambda>bs. None),
       ParseFromArray_PrimitiveBlock = (\<lambda>bs. None),
       zlib_uncompress = (\<lambda>bs n. Inr bs),
       to_iso = (\<lambda>ts. []) \<rparr>"

text \<open>
  A collector that follows ways only and keeps way members only, on a buffer whose purge
  moves nothing; \<open>collect\<close> runs the two passes from a new collector and returns the calls
  made on the hooks. Its sort is insertion sort by \<open>member_id\<close>, one of the functions
  \<open>std::sort\<close> may be (\<open>is_std_sort\<close>); the index entries of the examples have
  distinct ids, for which every such function returns the same vector.
\<close>

definition example_collector :: TCollector where
  "example_collector =
     \<lparr> TNodes = False, TWays = True, TRelations = False,
       keep_relation = (\<lambda>r. True), keep_member = (\<lambda>rm m. fst m = way),
       padded_size = (\<lambda>obj. 8), purge_deleted = (\<lambda>b. ([], b)),
       std_sort = sort_key (\<lambda>m. sint (member_id m)) \<rparr>"

definition collect ::
  "TCollector \<Rightarrow> bool \<Rightarrow> OSMEntity list \<Rightarrow> OSMEntity list \<Rightarrow> error + hook_call list" where
  "collect T ndebug source1 source2 =
     bind_e (read_relations T ndebug Collector_new source1) (\<lambda>c.
     bind_e (apply_pass2 T ndebug c source2) (\<lambda>c. Inr (m_calls c)))"

definition example_R1 :: OSMEntity where
  "example_R1 = (new_object relation)\<lparr>e_id := 1, e_members := [(way, 7, []), (way, 8, [])]\<rparr>"

definition example_R2 :: OSMEntity where
  "example_R2 = (new_object relation)\<lparr>e_id := 2, e_members := [(node, 3, [])]\<rparr>"

text \<open>A relation whose members are not in the order of their ids: the sort moves them.\<close>

definition example_R3 :: OSMEntity where
  "example_R3 = (new_object relation)\<lparr>e_id := 3, e_members := [(way, 8, []), (way, 7, [])]\<rparr>"

definition way_object :: "int64 \<Rightarrow> OSMEntity" where
  "way_object i = (new_object way)\<lparr>e_id := i\<rparr>"

section \<open>Basic facts\<close>

lemma bind_e_Inr_iff: "bind_e m f = Inr y \<longleftrightarrow> (\<exists>x. m = Inr x \<and> f x = Inr y)"
  by (cases m) (simp_all add: bind_e_def)

lemma bind_e_Inr [simp]: "bind_e (Inr x) f = f x"
  by (simp add: bind_e_def)

lemma bind_e_Inl [simp]: "bind_e (Inl e) f = Inl e"
  by (simp add: bind_e_def)

lemma get_at_Inr_iff: "get_at xs i = Inr x \<longleftrightarrow> i < length xs \<and> x = xs ! i"
  by (auto simp: get_at_def)

lemma c_assert_Inr_iff: "c_assert ndebug cond what = Inr u \<longleftrightarrow> ndebug \<or> cond"
  by (simp add: c_assert_def)

lemma way_refs_loop_length: "length (way_refs_loop ref ds) = length ds"
  by (induction ds arbitrary: ref) simp_all

lemma way_refs_loop_nth:
  "k < length ds \<Longrightarrow> way_refs_loop ref ds ! k = ref + sum_list (take (Suc k) ds)"
proof (induction ds arbitrary: ref k)
  case Nil
  then show ?case by simp
next
  case (Cons d ds)
  show ?case
  proof (cases k)
    case 0
    then show ?thesis by simp
  next
    case (Suc j)
    with Cons.prems have "j < length ds" by simp
    from Cons.IH [OF this, of "ref + d"] Suc show ?thesis
      by (simp add: add.assoc)
  qed
qed

lemma parse_way_nodes:
  "parse_way ndebug p w = Inr obj \<Longrightarrow> e_nodes obj = way_refs_loop 0 (w_refs w)"
  by (auto simp: parse_way_def parse_attributes_def bind_e_Inr_iff Let_def new_object_def
      split: option.splits if_splits)

lemma parse_way_group_app:
  "parse_way_group ndebug p ws buf = Inr out \<Longrightarrow>
     \<exists>objs. out = buf @ objs \<and> list_all2 (\<lambda>w obj. parse_way ndebug p w = Inr obj) ws objs"
proof (induction ws arbitrary: buf)
  case Nil
  then show ?case by simp
next
  case (Cons w ws)
  from Cons.prems obtain obj where o: "parse_way ndebug p w = Inr obj"
    and r: "parse_way_group ndebug p ws (buf @ [obj]) = Inr out"
    by (auto simp: bind_e_Inr_iff)
  from Cons.IH [OF r] obtain objs where "out = (buf @ [obj]) @ objs"
    and "list_all2 (\<lambda>w obj. parse_way ndebug p w = Inr obj) ws objs" by blast
  with o show ?case by (intro exI [of _ "obj # objs"]) simp
qed

lemma member_loop_spec:
  "member_loop st r n ref acc = Inr ms \<Longrightarrow>
     \<exists>new. ms = acc @ new \<and> length new = length (r_types r) - n \<and>
       (\<forall>k < length new. n + k < length (r_memids r) \<and>
          fst (snd (new ! k)) = ref + sum_list (take (Suc k) (drop n (r_memids r))))"
proof (induction st r n ref acc rule: member_loop.induct)
  case (1 st r n ref acc)
  show ?case
  proof (cases "n < length (r_types r)")
    case False
    with "1.prems" show ?thesis by (simp add: member_loop.simps)
  next
    case True
    let ?ids = "r_memids r"
    from "1.prems" True obtain sid role where n: "n < length ?ids"
      and rec: "member_loop st r (n + 1) (ref + ?ids ! n)
                  (acc @ [(osmpbf_membertype_to_item_type (r_types r ! n), ref + ?ids ! n, role)]) = Inr ms"
      by (subst (asm) member_loop.simps) (auto simp: bind_e_Inr_iff get_at_Inr_iff Let_def)
    from "1.IH" [OF True refl rec] obtain new where
      ms: "ms = (acc @ [(osmpbf_membertype_to_item_type (r_types r ! n), ref + ?ids ! n, role)]) @ new"
      and len: "length new = length (r_types r) - (n + 1)"
      and nth: "\<forall>k < length new. n + 1 + k < length ?ids \<and>
          fst (snd (new ! k)) = ref + ?ids ! n + sum_list (take (Suc k) (drop (n + 1) ?ids))"
      by auto
    let ?x = "(osmpbf_membertype_to_item_type (r_types r ! n), ref + ?ids ! n, role)"
    have d: "drop n ?ids = ?ids ! n # drop (Suc n) ?ids"
      using n by (simp add: Cons_nth_drop_Suc)
    have "\<forall>k < length (?x # new). n + k < length ?ids \<and>
          fst (snd ((?x # new) ! k)) = ref + sum_list (take (Suc k) (drop n ?ids))"
    proof (intro allI impI)
      fix k assume k: "k < length (?x # new)"
      show "n + k < length ?ids \<and>
          fst (snd ((?x # new) ! k)) = ref + sum_list (take (Suc k) (drop n ?ids))"
      proof (cases k)
        case 0
        with n d show ?thesis by simp
      next
        case (Suc j)
        with k have "j < length new" by simp
        with nth have "n + 1 + j < length ?ids" and
          "fst (snd (new ! j)) = ref + ?ids ! n + sum_list (take (Suc j) (drop (n + 1) ?ids))"
          by auto
        with Suc d show ?thesis by (simp add: add.assoc)
      qed
    qed
    with ms len True show ?thesis
      by (intro exI [of _ "?x # new"]) auto
  qed
qed

section \<open>Delta-encoded references\<close>

lemma parse_relation_members:
  assumes "parse_relation ndebug p r = Inr obj"
  shows "length (e_members obj) = length (r_types r)"
    and "k < length (r_types r) \<Longrightarrow> k < length (r_memids r) \<and>
           fst (snd (e_members obj ! k)) = sum_list (take (Suc k) (r_memids r))"
proof -
  from assms obtain ms where
    ms: "(if length (r_types r) > 0 then member_loop (m_stringtable p) r 0 0 [] else Inr []) = Inr ms"
    and obj: "e_members obj = ms"
    by (auto simp: parse_relation_def bind_e_Inr_iff)
  show "length (e_members obj) = length (r_types r)"
  proof (cases "length (r_types r) > 0")
    case True
    with ms member_loop_spec [of "m_stringtable p" r 0 0 "[]" ms] obj show ?thesis by auto
  next
    case False
    with ms obj show ?thesis by auto
  qed
  show "k < length (r_memids r) \<and>
           fst (snd (e_members obj ! k)) = sum_list (take (Suc k) (r_memids r))"
    if "k < length (r_types r)"
  proof -
    from that have "member_loop (m_stringtable p) r 0 0 [] = Inr ms"
      using ms by (cases "r_types r") simp_all
    from member_loop_spec [OF this] that obj show ?thesis by auto
  qed
qed

lemma parse_relation_group_app:
  "parse_relation_group ndebug p rs buf = Inr out \<Longrightarrow>
     \<exists>objs. out = buf @ objs \<and> list_all2 (\<lambda>r obj. parse_relation ndebug p r = Inr obj) rs objs"
proof (induction rs arbitrary: buf)
  case Nil
  then show ?case by simp
next
  case (Cons r rs)
  from Cons.prems obtain obj where o: "parse_relation ndebug p r = Inr obj"
    and r: "parse_relation_group ndebug p rs (buf @ [obj]) = Inr out"
    by (auto simp: bind_e_Inr_iff)
  from Cons.IH [OF r] obtain objs where "out = (buf @ [obj]) @ objs"
    and "list_all2 (\<lambda>r obj. parse_relation ndebug p r = Inr obj) rs objs" by blast
  with o show ?case by (intro exI [of _ "obj # objs"]) simp
qed

text \<open>
  Claim C5, as the code has it. The node references of every decoded way are the prefix sums
  of the wire array \<open>refs\<close>, started at 0, and there are as many of them. The members
  of every decoded relation are as many as the wire array \<open>types\<close> has entries (the
  member loop runs over \<open>types_size()\<close>), and the reference of member \<open>k\<close> is the sum
  of the first \<open>k + 1\<close> entries of \<open>memids\<close>. Sums are taken in \<open>int64_t\<close>.
\<close>

theorem delta_refs_prefix_sum:
  "(parse_way_group ndebug p ways buf = Inr out \<longrightarrow>
      length out = length buf + length ways \<and>
      (\<forall>i < length ways.
         length (e_nodes (out ! (length buf + i))) = length (w_refs (ways ! i)) \<and>
         (\<forall>k < length (w_refs (ways ! i)).
            e_nodes (out ! (length buf + i)) ! k = sum_list (take (Suc k) (w_refs (ways ! i)))))) \<and>
   (parse_relation_group ndebug p rels buf = Inr out' \<longrightarrow>
      length out' = length buf + length rels \<and>
      (\<forall>i < length rels.
         length (e_members (out' ! (length buf + i))) = length (r_types (rels ! i)) \<and>
         (\<forall>k < length (r_types (rels ! i)).
            k < length (r_memids (rels ! i)) \<and>
            fst (snd (e_members (out' ! (length buf + i)) ! k)) =
              sum_list (take (Suc k) (r_memids (rels ! i))))))"
proof (intro conjI impI)
  assume "parse_way_group ndebug p ways buf = Inr out"
  from parse_way_group_app [OF this] obtain objs where out: "out = buf @ objs"
    and all: "list_all2 (\<lambda>w obj. parse_way ndebug p w = Inr obj) ways objs" by blast
  from all have len: "length objs = length ways" by (simp add: list_all2_lengthD)
  with out show "length out = length buf + length ways" by simp
  show "\<forall>i < length ways.
         length (e_nodes (out ! (length buf + i))) = length (w_refs (ways ! i)) \<and>
         (\<forall>k < length (w_refs (ways ! i)).
            e_nodes (out ! (length buf + i)) ! k = sum_list (take (Suc k) (w_refs (ways ! i))))"
  proof (intro allI impI)
    fix i assume i: "i < length ways"
    have "parse_way ndebug p (ways ! i) = Inr (objs ! i)"
      by (rule list_all2_nthD [OF all i])
    then have n: "e_nodes (objs ! i) = way_refs_loop 0 (w_refs (ways ! i))"
      by (rule parse_way_nodes)
    have "out ! (length buf + i) = objs ! i" using out by simp
    with n show "length (e_nodes (out ! (length buf + i))) = length (w_refs (ways ! i)) \<and>
         (\<forall>k < length (w_refs (ways ! i)).
            e_nodes (out ! (length buf + i)) ! k = sum_list (take (Suc k) (w_refs (ways ! i))))"
      by (simp add: way_refs_loop_length way_refs_loop_nth)
  qed
next
  assume "parse_relation_group ndebug p rels buf = Inr out'"
  from parse_relation_group_app [OF this] obtain objs where out: "out' = buf @ objs"
    and all: "list_all2 (\<lambda>r obj. parse_relation ndebug p r = Inr obj) rels objs" by blast
  from all have len: "length objs = length rels" by (simp add: list_all2_lengthD)
  with out show "length out' = length buf + length rels" by simp
  show "\<forall>i < length rels.
         length (e_members (out' ! (length buf + i))) = length (r_types (rels ! i)) \<and>
         (\<forall>k < length (r_types (rels ! i)).
            k < length (r_memids (rels ! i)) \<and>
            fst (snd (e_members (out' ! (length buf + i)) ! k)) =
              sum_list (take (Suc k) (r_memids (rels ! i))))"
  proof (intro allI impI conjI)
    fix i assume i: "i < length rels"
    have p: "parse_relation ndebug p (rels ! i) = Inr (objs ! i)"
      by (rule list_all2_nthD [OF all i])
    have o: "out' ! (length buf + i) = objs ! i" using out by simp
    from parse_relation_members(1) [OF p] o
    show "length (e_members (out' ! (length buf + i))) = length (r_types (rels ! i))" by simp
    fix k assume k: "k < length (r_types (rels ! i))"
    from parse_relation_members(2) [OF p k] o
    show "k < length (r_memids (rels ! i))"
      and "fst (snd (e_members (out' ! (length buf + i)) ! k)) =
              sum_list (take (Suc k) (r_memids (rels ! i)))" by simp_all
  qed
qed

lemma example_way_group:
  "parse_way_group False example_parser [example_way] [] =
     Inr [(new_object way)\<lparr>e_id := 1, e_nodes := [100, 105, 95]\<rparr>]"
  by (simp add: parse_way_def parse_attributes_def parse_tags_def example_parser_def
      example_way_def new_object_def)

lemma example_relation_group:
  "parse_relation_group False example_parser [example_relation] [] =
     Inr [(new_object relation)\<lparr>e_id := 1, e_members := [(way, 7, []), (way, 8, [])]\<rparr>]"
  by (simp add: parse_relation_def parse_attributes_def parse_tags_def example_parser_def
      example_relation_def member_loop.simps get_at_def s_def new_object_def)

theorem delta_refs_prefix_sum_witness:
  "parse_way_group False example_parser [example_way] [] =
     Inr [(new_object way)\<lparr>e_id := 1, e_nodes := [100, 105, 95]\<rparr>] \<and>
   parse_relation_group False example_parser [example_relation] [] =
     Inr [(new_object relation)\<lparr>e_id := 1, e_members := [(way, 7, []), (way, 8, [])]\<rparr>] \<and>
   (100 :: int64) = sum_list (take 1 [100, 5, - 10]) \<and>
   (105 :: int64) = sum_list (take 2 [100, 5, - 10]) \<and>
   (95 :: int64) = sum_list (take 3 [100, 5, - 10]) \<and>
   (8 :: int64) = sum_list (take 2 [7, 1])"
  using delta_refs_prefix_sum [of False example_parser "[example_way]" "[]"
      "[(new_object way)\<lparr>e_id := 1, e_nodes := [100, 105, 95]\<rparr>]" "[example_relation]"
      "[(new_object relation)\<lparr>e_id := 1, e_members := [(way, 7, []), (way, 8, [])]\<rparr>]"]
    example_way_group example_relation_group
  by simp

theorem relation_members_length_counterexample:
  "parse_relation_group False example_parser [long_memids_relation] [] =
     Inr [(new_object relation)\<lparr>e_id := 1, e_members := [(way, 5, [])]\<rparr>] \<and>
   length (r_memids long_memids_relation) = 2"
  by (simp add: parse_relation_def parse_attributes_def parse_tags_def example_parser_def
      long_memids_relation_def member_loop.simps get_at_def s_def new_object_def)

section \<open>Dense nodes\<close>

lemma dense_advance_None:
  assumes "dense_advance ndebug dense i st = Inr (st1, vis)" and "d_denseinfo dense = None"
  shows "i < length (d_id dense)" "i < length (d_lat dense)" "i < length (d_lon dense)"
    "st1 = st\<lparr>last_dense_id := last_dense_id st + d_id dense ! i,
               last_dense_latitude := last_dense_latitude st + d_lat dense ! i,
               last_dense_longitude := last_dense_longitude st + d_lon dense ! i\<rparr>"
    "vis"
  using assms
  by (auto simp: dense_advance_def bind_e_Inr_iff get_at_Inr_iff Let_def)

lemma dense_advance_Some:
  assumes "dense_advance ndebug dense i st = Inr (st1, vis)" and "d_denseinfo dense = Some di"
  shows "i < length (d_id dense)" "i < length (d_lat dense)" "i < length (d_lon dense)"
    "i < length (di_changeset di)" "i < length (di_timestamp di)"
    "i < length (di_uid di)" "i < length (di_user_sid di)"
    "st1 = st\<lparr>last_dense_id := last_dense_id st + d_id dense ! i,
               last_dense_latitude := last_dense_latitude st + d_lat dense ! i,
               last_dense_longitude := last_dense_longitude st + d_lon dense ! i,
               last_dense_changeset := last_dense_changeset st + di_changeset di ! i,
               last_dense_timestamp := last_dense_timestamp st + di_timestamp di ! i,
               last_dense_uid := last_dense_uid st + scast (di_uid di ! i),
               last_dense_user_sid := last_dense_user_sid st + scast (di_user_sid di ! i)\<rparr>"
    "vis = (if length (di_visible di) > 0 then di_visible di ! i else True)"
    "\<not> ndebug \<Longrightarrow> 0 \<le> sint (last_dense_changeset st1) \<and> 0 \<le> sint (last_dense_timestamp st1)
        \<and> - 1 \<le> sint (last_dense_uid st1) \<and> 0 \<le> sint (last_dense_user_sid st1)"
  using assms
  by (auto simp: dense_advance_def bind_e_Inr_iff get_at_Inr_iff c_assert_Inr_iff Let_def
      split: if_splits)

lemma dense_build_Inr:
  assumes "dense_build ndebug p dense i st1 vis = Inr (st', obj)"
  shows "e_id obj = last_dense_id st1" "e_type obj = node"
    "e_location obj =
       (if vis then Some (coordinate (last_dense_longitude st1) (m_granularity p) (m_lon_offset p),
                          coordinate (last_dense_latitude st1) (m_granularity p) (m_lat_offset p))
        else None)"
    "add_tags (m_stringtable p) (d_keys_vals dense) (last_dense_tag st1) =
       Inr (e_tags obj, last_dense_tag st')"
    "st' = st1\<lparr>last_dense_tag := last_dense_tag st'\<rparr>"
    "d_denseinfo dense = None \<Longrightarrow> e_timestamp obj = None \<and> e_visible obj"
    "d_denseinfo dense = Some di \<Longrightarrow>
       e_timestamp obj = Some (last_dense_timestamp st1 * m_date_factor p) \<and> e_visible obj = vis
       \<and> i < length (di_version di) \<and> (\<not> ndebug \<longrightarrow> 0 < sint (di_version di ! i))
       \<and> e_version obj = Some (di_version di ! i)"
  using assms
  by (auto simp: dense_build_def bind_e_Inr_iff get_at_Inr_iff c_assert_Inr_iff Let_def
      new_object_def split: if_splits option.splits)

lemma dense_loop_rule:
  "\<forall>i st st' obj. i < length (d_id dense) \<longrightarrow> I i st \<longrightarrow>
        dense_step ndebug p dense i st = Inr (st', obj) \<longrightarrow> I (Suc i) st' \<and> Q i obj \<Longrightarrow>
   I i st \<Longrightarrow> dense_loop ndebug p dense i st buf = Inr out \<Longrightarrow>
   \<exists>objs. out = buf @ objs \<and> length objs = length (d_id dense) - i \<and>
     (\<forall>k < length objs. Q (i + k) (objs ! k))"
proof (induction ndebug p dense i st buf rule: dense_loop.induct)
  case (1 ndebug p dense i st buf)
  show ?case
  proof (cases "i < length (d_id dense)")
    case False
    with "1.prems"(3) show ?thesis by (simp add: dense_loop.simps)
  next
    case True
    from "1.prems"(3) True obtain st' obj where
      step: "dense_step ndebug p dense i st = Inr (st', obj)"
      and rec: "dense_loop ndebug p dense (i + 1) st' (buf @ [obj]) = Inr out"
      by (subst (asm) dense_loop.simps) (auto simp: bind_e_Inr_iff)
    from "1.prems"(1) True "1.prems"(2) step have I': "I (Suc i) st'" and Q: "Q i obj"
      by blast+
    from I' have I'': "I (i + 1) st'" by simp
    from "1.IH" [OF True "1.prems"(1) I'' rec]
    obtain objs where out: "out = (buf @ [obj]) @ objs"
      and len: "length objs = length (d_id dense) - (i + 1)"
      and all: "\<forall>k < length objs. Q (i + 1 + k) (objs ! k)"
      by auto
    have "\<forall>k < length (obj # objs). Q (i + k) ((obj # objs) ! k)"
    proof (intro allI impI)
      fix k assume "k < length (obj # objs)"
      then show "Q (i + k) ((obj # objs) ! k)"
        using Q all by (cases k) auto
    qed
    with out len True show ?thesis
      by (intro exI [of _ "obj # objs"]) auto
  qed
qed

lemma sum_list_take_Suc:
  "i < length xs \<Longrightarrow> sum_list (take (Suc i) xs) = sum_list (take i xs) + (xs ! i :: 'a :: monoid_add)"
  by (simp add: take_Suc_conv_app_nth)

lemma sum_list_map_take_Suc:
  "i < length xs \<Longrightarrow>
     sum_list (map f (take (Suc i) xs)) = sum_list (map f (take i xs)) + (f (xs ! i) :: 'a :: monoid_add)"
  by (simp add: take_Suc_conv_app_nth)

lemma dense_step_sums:
  assumes step: "dense_step ndebug p dense i st = Inr (st', obj)" and inv: "dense_sums dense i st"
  shows "dense_sums dense (Suc i) st'"
    and "e_id obj = sum_list (take (Suc i) (d_id dense))"
    and "e_type obj = node"
    and "e_visible obj \<Longrightarrow> e_location obj =
           Some (coordinate (sum_list (take (Suc i) (d_lon dense))) (m_granularity p) (m_lon_offset p),
                 coordinate (sum_list (take (Suc i) (d_lat dense))) (m_granularity p) (m_lat_offset p))"
    and "d_denseinfo dense = Some di \<Longrightarrow>
           e_timestamp obj = Some (sum_list (take (Suc i) (di_timestamp di)) * m_date_factor p)"
proof -
  from step obtain st1 vis where adv: "dense_advance ndebug dense i st = Inr (st1, vis)"
    and build: "dense_build ndebug p dense i st1 vis = Inr (st', obj)"
    by (auto simp: dense_step_def bind_e_Inr_iff)
  note b = dense_build_Inr [OF build]
  have st1: "dense_sums dense (Suc i) st1"
  proof (cases "d_denseinfo dense")
    case None
    from dense_advance_None [OF adv None] inv None show ?thesis
      by (simp add: dense_sums_def sum_list_take_Suc)
  next
    case (Some di)
    from dense_advance_Some [OF adv Some] inv Some show ?thesis
      by (simp add: dense_sums_def sum_list_take_Suc sum_list_map_take_Suc)
  qed
  from b(5) have eqs: "last_dense_id st' = last_dense_id st1"
    "last_dense_latitude st' = last_dense_latitude st1"
    "last_dense_longitude st' = last_dense_longitude st1"
    "last_dense_changeset st' = last_dense_changeset st1"
    "last_dense_timestamp st' = last_dense_timestamp st1"
    "last_dense_uid st' = last_dense_uid st1"
    "last_dense_user_sid st' = last_dense_user_sid st1"
    by (metis dense_state.select_convs dense_state.surjective dense_state.update_convs)+
  with st1 show "dense_sums dense (Suc i) st'"
    by (simp add: dense_sums_def split: option.splits)
  from b(1) st1 show "e_id obj = sum_list (take (Suc i) (d_id dense))"
    by (simp add: dense_sums_def)
  from b(2) show "e_type obj = node" .
  show "e_location obj =
           Some (coordinate (sum_list (take (Suc i) (d_lon dense))) (m_granularity p) (m_lon_offset p),
                 coordinate (sum_list (take (Suc i) (d_lat dense))) (m_granularity p) (m_lat_offset p))"
    if "e_visible obj"
  proof -
    have vis
    proof (cases "d_denseinfo dense")
      case None
      from dense_advance_None(5) [OF adv None] show ?thesis .
    next
      case (Some di')
      from b(7) [OF Some] that show ?thesis by simp
    qed
    with b(3) st1 show ?thesis by (simp add: dense_sums_def)
  qed
  show "e_timestamp obj = Some (sum_list (take (Suc i) (di_timestamp di)) * m_date_factor p)"
    if "d_denseinfo dense = Some di"
    using b(7) [OF that] st1 that by (simp add: dense_sums_def)
qed

lemma dense_sums_init: "dense_sums dense 0 dense_state_init"
  by (simp add: dense_sums_def dense_state_init_def split: option.splits)

lemma parse_dense_node_group_sums:
  assumes "parse_dense_node_group ndebug p dense buf = Inr out"
  shows "\<exists>objs. out = buf @ objs \<and> length objs = length (d_id dense) \<and>
     (\<forall>k < length objs.
        e_id (objs ! k) = sum_list (take (Suc k) (d_id dense)) \<and>
        e_type (objs ! k) = node \<and>
        (e_visible (objs ! k) \<longrightarrow> e_location (objs ! k) =
           Some (coordinate (sum_list (take (Suc k) (d_lon dense))) (m_granularity p) (m_lon_offset p),
                 coordinate (sum_list (take (Suc k) (d_lat dense))) (m_granularity p) (m_lat_offset p))) \<and>
        (\<forall>di. d_denseinfo dense = Some di \<longrightarrow>
           e_timestamp (objs ! k) =
             Some (sum_list (take (Suc k) (di_timestamp di)) * m_date_factor p)))"
proof -
  let ?Q = "\<lambda>k obj.
        e_id obj = sum_list (take (Suc k) (d_id dense)) \<and>
        e_type obj = node \<and>
        (e_visible obj \<longrightarrow> e_location obj =
           Some (coordinate (sum_list (take (Suc k) (d_lon dense))) (m_granularity p) (m_lon_offset p),
                 coordinate (sum_list (take (Suc k) (d_lat dense))) (m_granularity p) (m_lat_offset p))) \<and>
        (\<forall>di. d_denseinfo dense = Some di \<longrightarrow>
           e_timestamp obj = Some (sum_list (take (Suc k) (di_timestamp di)) * m_date_factor p))"
  have step: "\<forall>i st st' obj. i < length (d_id dense) \<longrightarrow> dense_sums dense i st \<longrightarrow>
        dense_step ndebug p dense i st = Inr (st', obj) \<longrightarrow> dense_sums dense (Suc i) st' \<and> ?Q i obj"
  proof (intro allI impI)
    fix i st st' obj
    assume "i < length (d_id dense)" and inv: "dense_sums dense i st"
      and st: "dense_step ndebug p dense i st = Inr (st', obj)"
    note f = dense_step_sums [OF st inv]
    from f(1) f(2) f(3) f(4) f(5) show "dense_sums dense (Suc i) st' \<and> ?Q i obj"
      by blast
  qed
  from assms have "dense_loop ndebug p dense 0 dense_state_init buf = Inr out"
    by (simp add: parse_dense_node_group_def)
  from dense_loop_rule [where I = "dense_sums dense" and Q = ?Q, OF step dense_sums_init this]
  show ?thesis by simp
qed




lemma length_prefix_sums [simp]: "length (prefix_sums xs) = length xs"
  by (simp add: prefix_sums_def)



lemmas dense_eval =
  parse_primitive_block_def block_parser_def parse_group_def parse_dense_node_group_def
  dense_loop.simps dense_step_def dense_advance_def dense_build_def dense_state_init_def
  add_tags_def add_tags_loop.simps get_at_def s_def c_assert_def coordinate_def sdiv_w_def
  lonlat_resolution_def coordinate_precision_def new_object_def dense_group_def
  example_block_def dense_node_def




section \<open>Coordinates and timestamps\<close>

lemma parse_attributes_Inr:
  assumes "parse_attributes ndebug p t oid info = Inr obj"
  shows "e_id obj = oid" "e_type obj = t" "e_location obj = None" "e_nodes obj = []"
    "e_members obj = []" "e_tags obj = []"
    "info = None \<Longrightarrow> e_timestamp obj = None \<and> e_visible obj"
    "info = Some i \<Longrightarrow> e_timestamp obj = Some (info_timestamp i * m_date_factor p)"
  using assms
  by (auto simp: parse_attributes_def bind_e_Inr_iff Let_def new_object_def
      split: option.splits)

lemma parse_node_Inr:
  assumes "parse_node ndebug p n = Inr obj"
  shows "e_location obj =
       (if e_visible obj
        then Some (coordinate (n_lon n) (m_granularity p) (m_lon_offset p),
                   coordinate (n_lat n) (m_granularity p) (m_lat_offset p))
        else None)"
    "n_info n = Some i \<Longrightarrow> e_timestamp obj = Some (info_timestamp i * m_date_factor p)"
    "e_id obj = n_id n"
proof -
  from assms obtain obj0 tags where a: "parse_attributes ndebug p node (n_id n) (n_info n) = Inr obj0"
    and obj: "obj = (if e_visible obj0 then
          obj0\<lparr>e_location := Some
            (coordinate (n_lon n) (m_granularity p) (m_lon_offset p),
             coordinate (n_lat n) (m_granularity p) (m_lat_offset p))\<rparr>
        else obj0)\<lparr>e_tags := tags\<rparr>"
    by (auto simp: parse_node_def bind_e_Inr_iff Let_def)
  note f = parse_attributes_Inr [OF a]
  from obj f(3) show "e_location obj =
       (if e_visible obj
        then Some (coordinate (n_lon n) (m_granularity p) (m_lon_offset p),
                   coordinate (n_lat n) (m_granularity p) (m_lat_offset p))
        else None)" by simp
  from obj f(8) show "e_timestamp obj = Some (info_timestamp i * m_date_factor p)"
    if "n_info n = Some i" using that by simp
  from obj f(1) show "e_id obj = n_id n" by simp
qed

lemma parse_way_timestamp:
  assumes "parse_way ndebug p w = Inr obj" and "w_info w = Some i"
  shows "e_timestamp obj = Some (info_timestamp i * m_date_factor p)"
proof -
  from assms(1) obtain obj0 where a: "parse_attributes ndebug p way (w_id w) (w_info w) = Inr obj0"
    and "e_timestamp obj = e_timestamp obj0"
    by (auto simp: parse_way_def bind_e_Inr_iff Let_def split: if_splits)
  with parse_attributes_Inr(8) [OF a assms(2)] show ?thesis by simp
qed

lemma parse_relation_timestamp:
  assumes "parse_relation ndebug p r = Inr obj" and "r_info r = Some i"
  shows "e_timestamp obj = Some (info_timestamp i * m_date_factor p)"
proof -
  from assms(1) obtain obj0 where
    a: "parse_attributes ndebug p relation (r_id r) (r_info r) = Inr obj0"
    and "e_timestamp obj = e_timestamp obj0"
    by (auto simp: parse_relation_def bind_e_Inr_iff Let_def split: if_splits)
  with parse_attributes_Inr(8) [OF a assms(2)] show ?thesis by simp
qed

lemma parse_node_group_app:
  "parse_node_group ndebug p ns buf = Inr out \<Longrightarrow>
     \<exists>objs. out = buf @ objs \<and> list_all2 (\<lambda>n obj. parse_node ndebug p n = Inr obj) ns objs"
proof (induction ns arbitrary: buf)
  case Nil
  then show ?case by simp
next
  case (Cons n ns)
  from Cons.prems obtain obj where o: "parse_node ndebug p n = Inr obj"
    and r: "parse_node_group ndebug p ns (buf @ [obj]) = Inr out"
    by (auto simp: bind_e_Inr_iff)
  from Cons.IH [OF r] obtain objs where "out = (buf @ [obj]) @ objs"
    and "list_all2 (\<lambda>n obj. parse_node ndebug p n = Inr obj) ns objs" by blast
  with o show ?case by (intro exI [of _ "obj # objs"]) simp
qed

lemma sint_sdiv_w_64: "sint (sdiv_w (x :: int64) 100) = sint x sdiv 100"
proof -
  have r: "- (2 ^ 63) \<le> sint x" "sint x < 2 ^ 63"
    using sint_ge [of x] sint_lt [of x] by simp_all
  have "- (2 ^ 63) \<le> sint x sdiv 100 \<and> sint x sdiv 100 < 2 ^ 63"
    using r by (auto simp: signed_divide_int_def sgn_if)
  then show ?thesis
    by (simp add: sdiv_w_def sint_sbintrunc' signed_take_bit_int_eq_self)
qed

lemma resolution_convert: "sdiv_w lonlat_resolution coordinate_precision = 100"
  by (simp add: sdiv_w_def lonlat_resolution_def coordinate_precision_def signed_divide_int_def)

lemma coordinate_exact:
  fixes raw offset :: int64 and gran :: int32
  assumes "- (2 ^ 63) \<le> sint raw * sint gran + sint offset"
    and "sint raw * sint gran + sint offset < 2 ^ 63"
  shows "sint (coordinate raw gran offset) = (sint raw * sint gran + sint offset) sdiv 100"
proof -
  have g: "(word_of_int (sint gran) :: int64) = scast gran" by (rule scast_eq [symmetric])
  have r: "(word_of_int (sint raw) :: int64) = raw" by simp
  have o: "(word_of_int (sint offset) :: int64) = offset" by simp
  have "word_of_int (sint raw * sint gran + sint offset)
      = (word_of_int (sint raw) :: int64) * word_of_int (sint gran) + word_of_int (sint offset)"
    by simp
  also have "\<dots> = raw * scast gran + offset" by (simp only: g r o)
  finally have "raw * scast gran + offset = word_of_int (sint raw * sint gran + sint offset)"
    by (rule sym)
  then have "sint (raw * scast gran + offset)
      = sint (word_of_int (sint raw * sint gran + sint offset) :: int64)"
    by (simp only:)
  also have "\<dots> = signed_take_bit 63 (sint raw * sint gran + sint offset)"
    by (simp only: sint_sbintrunc') simp
  also have "\<dots> = sint raw * sint gran + sint offset"
    using assms by (simp add: signed_take_bit_int_eq_self)
  finally have "sint (raw * scast gran + offset) = sint raw * sint gran + sint offset" .
  then show ?thesis
    by (simp add: coordinate_def resolution_convert sint_sdiv_w_64)
qed

lemma block_parser_fields:
  "m_granularity (block_parser rt blk) = pb_granularity blk"
  "m_lon_offset (block_parser rt blk) = pb_lon_offset blk"
  "m_lat_offset (block_parser rt blk) = pb_lat_offset blk"
  "m_read_types (block_parser rt blk) = rt"
  by (simp_all add: block_parser_def)

lemma node_group_locations:
  assumes g: "parse_node_group ndebug p nodes buf = Inr out" and i: "i < length nodes"
    and vis: "e_visible (out ! (length buf + i))"
  shows "e_location (out ! (length buf + i)) =
           Some (sdiv_w (n_lon (nodes ! i) * scast (m_granularity p) + m_lon_offset p) 100,
                 sdiv_w (n_lat (nodes ! i) * scast (m_granularity p) + m_lat_offset p) 100)"
proof -
  from parse_node_group_app [OF g] obtain objs where out: "out = buf @ objs"
    and all: "list_all2 (\<lambda>n obj. parse_node ndebug p n = Inr obj) nodes objs" by blast
  have p: "parse_node ndebug p (nodes ! i) = Inr (objs ! i)"
    by (rule list_all2_nthD [OF all i])
  have o: "out ! (length buf + i) = objs ! i" using out by simp
  from parse_node_Inr(1) [OF p] vis o
  show ?thesis
    by (simp add: coordinate_def resolution_convert)
qed

lemma dense_group_locations:
  assumes g: "parse_dense_node_group ndebug p dense buf = Inr out'" and i: "i < length (d_id dense)"
    and vis: "e_visible (out' ! (length buf + i))"
  shows "e_location (out' ! (length buf + i)) =
           Some (sdiv_w (sum_list (take (Suc i) (d_lon dense)) * scast (m_granularity p)
                          + m_lon_offset p) 100,
                 sdiv_w (sum_list (take (Suc i) (d_lat dense)) * scast (m_granularity p)
                          + m_lat_offset p) 100)"
proof -
  from parse_dense_node_group_sums [OF g] obtain objs where out: "out' = buf @ objs"
    and len: "length objs = length (d_id dense)"
    and loc: "\<forall>k < length objs. e_visible (objs ! k) \<longrightarrow> e_location (objs ! k) =
           Some (coordinate (sum_list (take (Suc k) (d_lon dense))) (m_granularity p) (m_lon_offset p),
                 coordinate (sum_list (take (Suc k) (d_lat dense))) (m_granularity p) (m_lat_offset p))"
    by blast
  have o: "out' ! (length buf + i) = objs ! i" using out by simp
  from loc i len vis o
  show ?thesis
    by (simp add: coordinate_def resolution_convert)
qed

lemma single_node_group_block:
  assumes "pb_primitivegroup blk = [grp]" and "g_dense grp = None" and "g_ways grp = []"
    and "g_relations grp = []" and "node \<in> rt" and "g_nodes grp \<noteq> []"
  shows "parse_primitive_block ndebug rt blk =
           parse_node_group ndebug (block_parser rt blk) (g_nodes grp) []"
  using assms
  by (cases "parse_node_group ndebug (block_parser rt blk) (g_nodes grp) []")
     (simp_all add: parse_primitive_block_def parse_group_def block_parser_fields)

lemma single_dense_group_block:
  assumes "pb_primitivegroup blk = [grp]" and "g_dense grp = Some dense" and "node \<in> rt"
  shows "parse_primitive_block ndebug rt blk =
           parse_dense_node_group ndebug (block_parser rt blk) dense []"
  using assms
  by (cases "parse_dense_node_group ndebug (block_parser rt blk) dense []")
     (simp_all add: parse_primitive_block_def parse_group_def block_parser_fields)

text \<open>
  Claim C7. \<open>operator()\<close> takes the granularity and the two offsets from the block, and
  every visible node of the block, dense or not, gets the location
  \<open>((raw * granularity + offset) / 100)\<close> for longitude and latitude, where \<open>raw\<close> is
  the wire value (the accumulated sum for a dense node) and 100 is
  \<open>lonlat_resolution / coordinate_precision\<close>: for a group decoded by the parser of the
  block at any position of the buffer, and for the output of a block of one group. Product
  and sum are those of \<open>int64_t\<close>, and the division is its truncating division: read as
  integers, the result is the exact quotient whenever \<open>raw * granularity + offset\<close> is an
  \<open>int64_t\<close> value.
\<close>

theorem node_coordinates:
  "(parse_node_group ndebug (block_parser rt blk) nodes buf = Inr out \<longrightarrow>
      (\<forall>i < length nodes. e_visible (out ! (length buf + i)) \<longrightarrow>
         e_location (out ! (length buf + i)) =
           Some (sdiv_w (n_lon (nodes ! i) * scast (pb_granularity blk) + pb_lon_offset blk) 100,
                 sdiv_w (n_lat (nodes ! i) * scast (pb_granularity blk) + pb_lat_offset blk) 100))) \<and>
   (parse_dense_node_group ndebug (block_parser rt blk) dense buf = Inr out' \<longrightarrow>
      (\<forall>i < length (d_id dense). e_visible (out' ! (length buf + i)) \<longrightarrow>
         e_location (out' ! (length buf + i)) =
           Some (sdiv_w (sum_list (take (Suc i) (d_lon dense)) * scast (pb_granularity blk)
                          + pb_lon_offset blk) 100,
                 sdiv_w (sum_list (take (Suc i) (d_lat dense)) * scast (pb_granularity blk)
                          + pb_lat_offset blk) 100))) \<and>
   (pb_primitivegroup blk = [grp] \<and> g_dense grp = None \<and> g_ways grp = [] \<and>
    g_relations grp = [] \<and> node \<in> rt \<and> parse_primitive_block ndebug rt blk = Inr objs \<longrightarrow>
      (\<forall>i < length (g_nodes grp). e_visible (objs ! i) \<longrightarrow>
         e_location (objs ! i) =
           Some (sdiv_w (n_lon (g_nodes grp ! i) * scast (pb_granularity blk)
                          + pb_lon_offset blk) 100,
                 sdiv_w (n_lat (g_nodes grp ! i) * scast (pb_granularity blk)
                          + pb_lat_offset blk) 100))) \<and>
   (pb_primitivegroup blk = [grp'] \<and> g_dense grp' = Some dense' \<and> node \<in> rt \<and>
    parse_primitive_block ndebug rt blk = Inr objs' \<longrightarrow>
      (\<forall>i < length (d_id dense'). e_visible (objs' ! i) \<longrightarrow>
         e_location (objs' ! i) =
           Some (sdiv_w (sum_list (take (Suc i) (d_lon dense')) * scast (pb_granularity blk)
                          + pb_lon_offset blk) 100,
                 sdiv_w (sum_list (take (Suc i) (d_lat dense')) * scast (pb_granularity blk)
                          + pb_lat_offset blk) 100))) \<and>
   sdiv_w lonlat_resolution coordinate_precision = 100 \<and>
   (\<forall>x :: int64. sint (sdiv_w x 100) = sint x sdiv 100) \<and>
   (\<forall>(raw :: int64) (gran :: int32) (offset :: int64).
      - (2 ^ 63) \<le> sint raw * sint gran + sint offset \<and>
      sint raw * sint gran + sint offset < 2 ^ 63 \<longrightarrow>
      sint (sdiv_w (raw * scast gran + offset) 100)
        = (sint raw * sint gran + sint offset) sdiv 100)"
proof -
  note f = block_parser_fields [of rt blk]
  have A: "\<forall>i < length nodes. e_visible (out ! (length buf + i)) \<longrightarrow>
         e_location (out ! (length buf + i)) =
           Some (sdiv_w (n_lon (nodes ! i) * scast (pb_granularity blk) + pb_lon_offset blk) 100,
                 sdiv_w (n_lat (nodes ! i) * scast (pb_granularity blk) + pb_lat_offset blk) 100)"
    if "parse_node_group ndebug (block_parser rt blk) nodes buf = Inr out"
    using node_group_locations [OF that] unfolding f by blast
  have B: "\<forall>i < length (d_id dense). e_visible (out' ! (length buf + i)) \<longrightarrow>
         e_location (out' ! (length buf + i)) =
           Some (sdiv_w (sum_list (take (Suc i) (d_lon dense)) * scast (pb_granularity blk)
                          + pb_lon_offset blk) 100,
                 sdiv_w (sum_list (take (Suc i) (d_lat dense)) * scast (pb_granularity blk)
                          + pb_lat_offset blk) 100)"
    if "parse_dense_node_group ndebug (block_parser rt blk) dense buf = Inr out'"
    using dense_group_locations [OF that] unfolding f by blast
  have C: "\<forall>i < length (g_nodes grp). e_visible (objs ! i) \<longrightarrow>
         e_location (objs ! i) =
           Some (sdiv_w (n_lon (g_nodes grp ! i) * scast (pb_granularity blk)
                          + pb_lon_offset blk) 100,
                 sdiv_w (n_lat (g_nodes grp ! i) * scast (pb_granularity blk)
                          + pb_lat_offset blk) 100)"
    if g: "pb_primitivegroup blk = [grp]" "g_dense grp = None" "g_ways grp = []"
      "g_relations grp = []" "node \<in> rt" and r: "parse_primitive_block ndebug rt blk = Inr objs"
  proof (cases "g_nodes grp = []")
    case True
    then show ?thesis by simp
  next
    case False
    from single_node_group_block [OF g False, of ndebug] r
    have "parse_node_group ndebug (block_parser rt blk) (g_nodes grp) [] = Inr objs" by simp
    from node_group_locations [OF this] show ?thesis unfolding f by simp
  qed
  have D: "\<forall>i < length (d_id dense'). e_visible (objs' ! i) \<longrightarrow>
         e_location (objs' ! i) =
           Some (sdiv_w (sum_list (take (Suc i) (d_lon dense')) * scast (pb_granularity blk)
                          + pb_lon_offset blk) 100,
                 sdiv_w (sum_list (take (Suc i) (d_lat dense')) * scast (pb_granularity blk)
                          + pb_lat_offset blk) 100)"
    if g: "pb_primitivegroup blk = [grp']" "g_dense grp' = Some dense'" "node \<in> rt"
      and r: "parse_primitive_block ndebug rt blk = Inr objs'"
  proof -
    from single_dense_group_block [OF g, of ndebug] r
    have "parse_dense_node_group ndebug (block_parser rt blk) dense' [] = Inr objs'" by simp
    from dense_group_locations [OF this] show ?thesis unfolding f by simp
  qed
  have E: "sint (sdiv_w (raw * scast gran + offset) 100)
        = (sint raw * sint gran + sint offset) sdiv 100"
    if "- (2 ^ 63) \<le> sint raw * sint gran + sint offset \<and>
      sint raw * sint gran + sint offset < 2 ^ 63"
    for raw offset :: int64 and gran :: int32
    using coordinate_exact [of raw gran offset] that
    by (simp add: coordinate_def resolution_convert)
  from A B C D E resolution_convert sint_sdiv_w_64 show ?thesis by blast
qed

lemmas object_eval =
  parse_node_def parse_way_def parse_relation_def parse_attributes_def parse_tags_def
  static_cast_with_assert_version_def static_cast_with_assert_changeset_def
  static_cast_with_assert_int_def member_loop.simps tag_loop.simps with_info_def

theorem node_coordinates_witness:
  "parse_node_group False (block_parser {node} (offset_block [])) [example_node] [] =
     Inr [dense_node 5 (- 14) 24] \<and>
   parse_dense_node_group False (block_parser {node} (offset_block [])) single_dense [] =
     Inr [dense_node 7 (- 14) 4] \<and>
   parse_primitive_block False {node} (offset_block [node_group [example_node]]) =
     Inr [dense_node 5 (- 14) 24] \<and>
   parse_primitive_block False {node} (offset_block [dense_group single_dense]) =
     Inr [dense_node 7 (- 14) 4] \<and>
   Some (- 14 :: int64, 24 :: int64)
     = Some (sdiv_w (- 250 * scast (10 :: int32) + 1050) 100,
             sdiv_w (199 * scast (10 :: int32) + 500) 100) \<and>
   Some (- 14 :: int64, 4 :: int64)
     = Some (sdiv_w (- 250 * scast (10 :: int32) + 1050) 100,
             sdiv_w (- 1 * scast (10 :: int32) + 500) 100) \<and>
   sint (sdiv_w (- 250 * scast (10 :: int32) + 1050 :: int64) 100) = (- 250 * 10 + 1050) sdiv 100 \<and>
   (- 250 * 10 + 1050) sdiv 100 = (- 14 :: int)"
proof -
  have n: "parse_node_group False (block_parser {node} (offset_block [])) [example_node] [] =
     Inr [dense_node 5 (- 14) 24]"
    by (simp add: dense_eval object_eval block_parser_def offset_block_def example_node_def
        signed_divide_int_def)
  have d: "parse_dense_node_group False (block_parser {node} (offset_block [])) single_dense [] =
     Inr [dense_node 7 (- 14) 4]"
    by (simp add: dense_eval block_parser_def offset_block_def single_dense_def
        signed_divide_int_def)
  have bn: "parse_primitive_block False {node} (offset_block [node_group [example_node]]) =
     Inr [dense_node 5 (- 14) 24]"
    by (simp add: dense_eval object_eval block_parser_def offset_block_def example_node_def
        signed_divide_int_def parse_primitive_block_def parse_group_def node_group_def)
  have bd: "parse_primitive_block False {node} (offset_block [dense_group single_dense]) =
     Inr [dense_node 7 (- 14) 4]"
    by (simp add: dense_eval block_parser_def offset_block_def single_dense_def
        signed_divide_int_def parse_primitive_block_def parse_group_def dense_group_def)
  have e: "sint (sdiv_w (- 250 * scast (10 :: int32) + 1050 :: int64) 100)
      = (- 250 * 10 + 1050) sdiv 100"
    using node_coordinates [of False "{node}" "offset_block [node_group [example_node]]"
        "[example_node]" "[]" "[dense_node 5 (- 14) 24]" single_dense "[dense_node 7 (- 14) 4]"
        "node_group [example_node]" "[dense_node 5 (- 14) 24]"
        "dense_group single_dense" single_dense "[dense_node 7 (- 14) 4]"]
    by simp
  have v: "Some (- 14 :: int64, 24 :: int64)
     = Some (sdiv_w (- 250 * scast (10 :: int32) + 1050) 100,
             sdiv_w (199 * scast (10 :: int32) + 500) 100)"
    "Some (- 14 :: int64, 4 :: int64)
     = Some (sdiv_w (- 250 * scast (10 :: int32) + 1050) 100,
             sdiv_w (- 1 * scast (10 :: int32) + 500) 100)"
    "(- 250 * 10 + 1050) sdiv 100 = (- 14 :: int)"
    by (simp_all add: sdiv_w_def signed_divide_int_def)
  from n d bn bd e v show ?thesis by (simp only: simp_thms)
qed

lemma scast_sdiv_1000:
  fixes dg :: int32
  shows "(scast (sdiv_w dg 1000) :: int64) = word_of_int (sint dg sdiv 1000)"
proof -
  have r: "- (2 ^ 31) \<le> sint dg" "sint dg < 2 ^ 31"
    using sint_ge [of dg] sint_lt [of dg] by simp_all
  have "- (2 ^ 31) \<le> sint dg sdiv 1000 \<and> sint dg sdiv 1000 < 2 ^ 31"
    using r by (auto simp: signed_divide_int_def sgn_if)
  then have "sint (sdiv_w dg 1000) = sint dg sdiv 1000"
    by (simp add: sdiv_w_def sint_sbintrunc' signed_take_bit_int_eq_self)
  then show ?thesis
    by (simp add: scast_eq)
qed

lemma date_factor_exact:
  fixes dg :: int32
  assumes "sint dg mod 1000 = 0"
  shows "1000 * (scast (sdiv_w dg 1000) :: int64) = scast dg"
proof -
  from assms have "1000 * (sint dg sdiv 1000) = sint dg"
    by (auto simp: signed_divide_int_def sgn_if abs_if zdiv_zminus1_eq_if)
  then have e: "word_of_int (1000 * (sint dg sdiv 1000)) = (word_of_int (sint dg) :: int64)"
    by (simp only:)
  have "1000 * (scast (sdiv_w dg 1000) :: int64) = 1000 * word_of_int (sint dg sdiv 1000)"
    by (simp only: scast_sdiv_1000)
  also have "\<dots> = word_of_int (1000 * (sint dg sdiv 1000))"
    by simp
  also have "\<dots> = word_of_int (sint dg)"
    by (rule e)
  also have "\<dots> = scast dg"
    by (rule scast_eq [symmetric])
  finally show ?thesis .
qed

text \<open>
  Claim C1, as the code has it. With \<open>info\<close> or \<open>denseinfo\<close> present, the value passed
  to \<open>set_timestamp\<close> is the raw timestamp (the accumulated sum for a dense node) times
  \<open>date_granularity / 1000\<close>, an integer division: the timestamp is in seconds. Times
  1000 it is \<open>raw * date_granularity\<close> when \<open>date_granularity\<close> is a multiple of 1000.
\<close>

theorem decoded_timestamp_seconds:
  "(parse_node ndebug (block_parser rt blk) n = Inr obj \<and> n_info n = Some i \<longrightarrow>
      e_timestamp obj =
        Some (info_timestamp i * scast (sdiv_w (pb_date_granularity blk) 1000))) \<and>
   (parse_way ndebug (block_parser rt blk) w = Inr obj' \<and> w_info w = Some i' \<longrightarrow>
      e_timestamp obj' =
        Some (info_timestamp i' * scast (sdiv_w (pb_date_granularity blk) 1000))) \<and>
   (parse_relation ndebug (block_parser rt blk) r = Inr obj'' \<and> r_info r = Some i'' \<longrightarrow>
      e_timestamp obj'' =
        Some (info_timestamp i'' * scast (sdiv_w (pb_date_granularity blk) 1000))) \<and>
   (parse_dense_node_group ndebug (block_parser rt blk) dense buf = Inr out \<and>
    d_denseinfo dense = Some di \<longrightarrow>
      (\<forall>k < length (d_id dense).
         e_timestamp (out ! (length buf + k)) =
           Some (sum_list (take (Suc k) (di_timestamp di))
                 * scast (sdiv_w (pb_date_granularity blk) 1000)))) \<and>
   (sint (pb_date_granularity blk) mod 1000 = 0 \<longrightarrow>
      1000 * (scast (sdiv_w (pb_date_granularity blk) 1000) :: int64)
        = scast (pb_date_granularity blk))"
proof -
  have f: "m_date_factor (block_parser rt blk) = scast (sdiv_w (pb_date_granularity blk) 1000)"
    by (simp add: block_parser_def)
  have dense: "\<forall>k < length (d_id dense).
         e_timestamp (out ! (length buf + k)) =
           Some (sum_list (take (Suc k) (di_timestamp di))
                 * scast (sdiv_w (pb_date_granularity blk) 1000))"
    if g: "parse_dense_node_group ndebug (block_parser rt blk) dense buf = Inr out"
      and di: "d_denseinfo dense = Some di"
  proof (intro allI impI)
    fix k assume k: "k < length (d_id dense)"
    from parse_dense_node_group_sums [OF g] obtain objs where out: "out = buf @ objs"
      and len: "length objs = length (d_id dense)"
      and ts: "\<forall>k < length objs. \<forall>di. d_denseinfo dense = Some di \<longrightarrow>
           e_timestamp (objs ! k) =
             Some (sum_list (take (Suc k) (di_timestamp di)) * m_date_factor (block_parser rt blk))"
      by blast
    have "out ! (length buf + k) = objs ! k" using out by simp
    with ts k len di f show "e_timestamp (out ! (length buf + k)) =
           Some (sum_list (take (Suc k) (di_timestamp di))
                 * scast (sdiv_w (pb_date_granularity blk) 1000))"
      by simp
  qed
  show ?thesis
    using parse_node_Inr(2) [of ndebug "block_parser rt blk" n obj i]
      parse_way_timestamp [of ndebug "block_parser rt blk" w obj' i']
      parse_relation_timestamp [of ndebug "block_parser rt blk" r obj'' i'']
      dense date_factor_exact [of "pb_date_granularity blk"]
    unfolding f by blast
qed

lemmas timestamp_eval =
  dense_eval object_eval node_with_info_def way_with_info_def relation_with_info_def
  dense_with_info_def example_info_def example_denseinfo_def signed_divide_int_def

theorem decoded_timestamp_seconds_witness:
  "parse_node False (block_parser {node} (example_block [] 2000)) node_with_info =
     Inr (with_info (dense_node 5 (- 250) 199) 2800000000) \<and>
   parse_way False (block_parser {way} (example_block [] 2000)) way_with_info =
     Inr (with_info ((new_object way)\<lparr>e_id := 1\<rparr>) 2800000000) \<and>
   parse_relation False (block_parser {relation} (example_block [] 2000)) relation_with_info =
     Inr (with_info ((new_object relation)\<lparr>e_id := 1\<rparr>) 2800000000) \<and>
   parse_dense_node_group False (block_parser {node} (example_block [] 2000)) dense_with_info [] =
     Inr [with_info (dense_node 7 (- 250) (- 1)) 2800000000] \<and>
   2800000000 = (1400000000 :: int64) * scast (sdiv_w (2000 :: int32) 1000) \<and>
   1000 * (2800000000 :: int64) = 1400000000 * 2000"
proof -
  have n: "parse_node False (block_parser {node} (example_block [] 2000)) node_with_info =
     Inr (with_info (dense_node 5 (- 250) 199) 2800000000)"
    by (simp add: timestamp_eval)
  have w: "parse_way False (block_parser {way} (example_block [] 2000)) way_with_info =
     Inr (with_info ((new_object way)\<lparr>e_id := 1\<rparr>) 2800000000)"
    by (simp add: timestamp_eval)
  have r: "parse_relation False (block_parser {relation} (example_block [] 2000))
      relation_with_info = Inr (with_info ((new_object relation)\<lparr>e_id := 1\<rparr>) 2800000000)"
    by (simp add: timestamp_eval)
  have d: "parse_dense_node_group False (block_parser {node} (example_block [] 2000))
      dense_with_info [] = Inr [with_info (dense_node 7 (- 250) (- 1)) 2800000000]"
    by (simp add: timestamp_eval)
  have i: "n_info node_with_info = Some example_info" "w_info way_with_info = Some example_info"
    "r_info relation_with_info = Some example_info"
    "d_denseinfo dense_with_info = Some example_denseinfo"
    by (simp_all add: node_with_info_def way_with_info_def relation_with_info_def
        dense_with_info_def)
  have g: "pb_date_granularity (example_block [] 2000) = 2000"
    by (simp add: example_block_def)
  from decoded_timestamp_seconds [of False "{node}" "example_block [] 2000" node_with_info
      "with_info (dense_node 5 (- 250) 199) 2800000000" example_info]
    n i(1) g
  have "2800000000 = (1400000000 :: int64) * scast (sdiv_w (2000 :: int32) 1000)"
    by (simp add: with_info_def example_info_def)
  with n w r d show ?thesis by simp
qed

theorem timestamp_milliseconds_counterexample:
  "parse_primitive_block False {way}
     (example_block [\<lparr> g_nodes = [], g_dense = None, g_ways = [way_with_info],
                       g_relations = [] \<rparr>] 1500) =
     Inr [with_info ((new_object way)\<lparr>e_id := 1\<rparr>) 1400000000] \<and>
   info_timestamp example_info = 1400000000 \<and>
   (1400000000 :: int64) \<noteq> 1400000000 * 1500 \<and>
   1000 * (1400000000 :: int64) \<noteq> 1400000000 * 1500"
  by (simp add: timestamp_eval)

section \<open>Tags of dense nodes\<close>

lemma s_Inr: "s st i = Inr x \<Longrightarrow> x = st ! nat (sint i)"
  by (auto simp: s_def split: if_splits)

lemma add_tags_loop_spec:
  "add_tags_loop st kv n acc = Inr (tags, n') \<Longrightarrow> n \<le> length kv \<Longrightarrow>
     \<exists>pairs. spec_node_tags (drop n kv) = Some (pairs, drop n' kv) \<and>
       tags = acc @ tag_strings st pairs \<and> n' \<le> length kv"
proof (induction st kv n acc rule: add_tags_loop.induct)
  case (1 st kv n acc)
  show ?case
  proof (cases "n < length kv")
    case False
    with "1.prems" show ?thesis
      by (simp add: add_tags_loop.simps tag_strings_def)
  next
    case True
    then have d: "drop n kv = kv ! n # drop (Suc n) kv"
      by (simp add: Cons_nth_drop_Suc)
    show ?thesis
    proof (cases "kv ! n = 0")
      case z: True
      from "1.prems"(1) True z have "tags = acc" "n' = n + 1"
        by (simp_all add: add_tags_loop.simps)
      with True d z show ?thesis by (simp add: tag_strings_def)
    next
      case nz: False
      from "1.prems"(1) True nz obtain key val where
        key: "s st (kv ! n) = Inr key" and n1: "n + 1 < length kv"
        and val: "s st (kv ! (n + 1)) = Inr val"
        and rec: "add_tags_loop st kv (n + 1 + 1) (acc @ [(key, val)]) = Inr (tags, n')"
        by (subst (asm) add_tags_loop.simps)
          (auto simp: bind_e_Inr_iff get_at_Inr_iff Let_def)
      from n1 have le: "n + 1 + 1 \<le> length kv" by simp
      from "1.IH" [OF True refl refl nz rec le] obtain pairs where
        sp: "spec_node_tags (drop (n + 1 + 1) kv) = Some (pairs, drop n' kv)"
        and tags: "tags = (acc @ [(key, val)]) @ tag_strings st pairs"
        and n': "n' \<le> length kv"
        by blast
      from n1 have d1: "drop (Suc n) kv = kv ! (n + 1) # drop (n + 1 + 1) kv"
        by (simp add: Cons_nth_drop_Suc)
      have "spec_node_tags (drop n kv) = Some ((kv ! n, kv ! (n + 1)) # pairs, drop n' kv)"
        using d d1 nz sp by simp
      moreover have "tags = acc @ tag_strings st ((kv ! n, kv ! (n + 1)) # pairs)"
        using tags s_Inr [OF key] s_Inr [OF val] by (simp add: tag_strings_def)
      ultimately show ?thesis using n' by blast
    qed
  qed
qed

lemma add_tags_spec:
  assumes "add_tags st kv n = Inr (tags, n')" and "n \<le> length kv"
  shows "\<exists>pairs. spec_node_tags (drop n kv) = Some (pairs, drop n' kv) \<and>
       tags = tag_strings st pairs \<and> n' \<le> length kv"
proof (cases "n \<ge> length kv")
  case True
  with assms show ?thesis by (simp add: add_tags_def tag_strings_def)
next
  case False
  then have lt: "n < length kv" by simp
  then have d: "drop n kv = kv ! n # drop (Suc n) kv"
    by (simp add: Cons_nth_drop_Suc)
  show ?thesis
  proof (cases "kv ! n = 0")
    case True
    with assms lt d show ?thesis by (simp add: add_tags_def tag_strings_def)
  next
    case nz: False
    with assms lt have "add_tags_loop st kv n [] = Inr (tags, n')"
      by (simp add: add_tags_def)
    from add_tags_loop_spec [OF this assms(2)] show ?thesis by simp
  qed
qed

lemma dense_loop_tags:
  "dense_loop ndebug p dense i st buf = Inr out \<Longrightarrow>
   last_dense_tag st \<le> length (d_keys_vals dense) \<Longrightarrow>
   \<exists>segments objs.
     spec_dense_tags (length (d_id dense) - i) (drop (last_dense_tag st) (d_keys_vals dense))
       = Some segments \<and>
     out = buf @ objs \<and>
     map e_tags objs = map (tag_strings (m_stringtable p)) segments"
proof (induction ndebug p dense i st buf rule: dense_loop.induct)
  case (1 ndebug p dense i st buf)
  show ?case
  proof (cases "i < length (d_id dense)")
    case False
    with "1.prems"(1) show ?thesis by (simp add: dense_loop.simps)
  next
    case True
    from "1.prems"(1) True obtain st' obj where
      step: "dense_step ndebug p dense i st = Inr (st', obj)"
      and rec: "dense_loop ndebug p dense (i + 1) st' (buf @ [obj]) = Inr out"
      by (subst (asm) dense_loop.simps) (auto simp: bind_e_Inr_iff)
    from step obtain st1 vis where adv: "dense_advance ndebug dense i st = Inr (st1, vis)"
      and build: "dense_build ndebug p dense i st1 vis = Inr (st', obj)"
      by (auto simp: dense_step_def bind_e_Inr_iff)
    have "last_dense_tag st1 = last_dense_tag st"
    proof (cases "d_denseinfo dense")
      case None
      from dense_advance_None(4) [OF adv None] show ?thesis by simp
    next
      case (Some di)
      from dense_advance_Some(8) [OF adv Some] show ?thesis by simp
    qed
    with dense_build_Inr(4) [OF build]
    have "add_tags (m_stringtable p) (d_keys_vals dense) (last_dense_tag st) =
       Inr (e_tags obj, last_dense_tag st')" by simp
    from add_tags_spec [OF this "1.prems"(2)] obtain pairs where
      sp: "spec_node_tags (drop (last_dense_tag st) (d_keys_vals dense)) =
             Some (pairs, drop (last_dense_tag st') (d_keys_vals dense))"
      and tg: "e_tags obj = tag_strings (m_stringtable p) pairs"
      and le: "last_dense_tag st' \<le> length (d_keys_vals dense)"
      by blast
    from "1.IH" [OF True rec le] obtain segments objs where
      sd: "spec_dense_tags (length (d_id dense) - (i + 1))
             (drop (last_dense_tag st') (d_keys_vals dense)) = Some segments"
      and out: "out = (buf @ [obj]) @ objs"
      and tags: "map e_tags objs = map (tag_strings (m_stringtable p)) segments"
      by blast
    from True have n: "length (d_id dense) - i = Suc (length (d_id dense) - (i + 1))"
      by simp
    have "spec_dense_tags (length (d_id dense) - i)
            (drop (last_dense_tag st) (d_keys_vals dense)) = Some (pairs # segments)"
      unfolding n using sp sd by simp
    moreover have "out = buf @ (obj # objs)" using out by simp
    moreover have "map e_tags (obj # objs) = map (tag_strings (m_stringtable p)) (pairs # segments)"
      using tg tags by simp
    ultimately show ?thesis by blast
  qed
qed

text \<open>
  Claim C6. The tags of the dense nodes of a group are the segments the specification
  cuts from \<open>keys_vals\<close>, one after the other from one cursor: pairs of key and value
  up to a key position 0, which is consumed, or up to the end of the stream; the string
  table turns the pairs into strings. At the end of the stream \<open>add_tags\<close> gives no
  tags and leaves the cursor; at a 0 it gives no tags and steps over it.
\<close>

theorem dense_tags_from_shared_cursor:
  "(parse_dense_node_group ndebug p dense buf = Inr out \<longrightarrow>
      (\<exists>segments.
         spec_dense_tags (length (d_id dense)) (d_keys_vals dense) = Some segments \<and>
         map e_tags (drop (length buf) out) = map (tag_strings (m_stringtable p)) segments)) \<and>
   (length kv \<le> n \<longrightarrow> add_tags st kv n = Inr ([], n)) \<and>
   (n < length kv \<and> kv ! n = 0 \<longrightarrow> add_tags st kv n = Inr ([], n + 1))"
proof (intro conjI impI)
  assume "parse_dense_node_group ndebug p dense buf = Inr out"
  then have "dense_loop ndebug p dense 0 dense_state_init buf = Inr out"
    by (simp add: parse_dense_node_group_def)
  from dense_loop_tags [OF this] obtain segments objs where
    "spec_dense_tags (length (d_id dense)) (d_keys_vals dense) = Some segments"
    "out = buf @ objs" "map e_tags objs = map (tag_strings (m_stringtable p)) segments"
    by (auto simp: dense_state_init_def)
  then show "\<exists>segments.
         spec_dense_tags (length (d_id dense)) (d_keys_vals dense) = Some segments \<and>
         map e_tags (drop (length buf) out) = map (tag_strings (m_stringtable p)) segments"
    by simp
next
  assume "length kv \<le> n"
  then show "add_tags st kv n = Inr ([], n)" by (simp add: add_tags_def)
next
  assume "n < length kv \<and> kv ! n = 0"
  then show "add_tags st kv n = Inr ([], n + 1)" by (simp add: add_tags_def)
qed

theorem dense_tags_from_shared_cursor_witness:
  "parse_dense_node_group False example_parser dense_tags_example [] =
     Inr [(dense_node 1 0 0)\<lparr>e_tags := [(''k1'', ''v1'')]\<rparr>,
          (dense_node 2 0 0)\<lparr>e_tags := [(''k2'', ''v2'')]\<rparr>] \<and>
   spec_dense_tags 2 [1, 2, 0, 3, 4, 0] = Some [[(1, 2)], [(3, 4)]] \<and>
   map (tag_strings [[], ''k1'', ''v1'', ''k2'', ''v2'']) [[(1, 2)], [(3, 4)]] =
     [[(''k1'', ''v1'')], [(''k2'', ''v2'')]] \<and>
   add_tags [] [1, 2, 0] 3 = Inr ([], 3) \<and>
   add_tags [] [1, 2, 0, 0] 3 = Inr ([], 4)"
proof -
  have e: "parse_dense_node_group False example_parser dense_tags_example [] =
     Inr [(dense_node 1 0 0)\<lparr>e_tags := [(''k1'', ''v1'')]\<rparr>,
          (dense_node 2 0 0)\<lparr>e_tags := [(''k2'', ''v2'')]\<rparr>]"
    by (simp add: dense_eval example_parser_def dense_tags_example_def signed_divide_int_def)
  have s: "spec_dense_tags 2 [1, 2, 0, 3, 4, 0] = Some [[(1, 2)], [(3, 4)]]"
  proof -
    have "spec_dense_tags (Suc (Suc 0)) [1, 2, 0, 3, 4, 0] = Some [[(1, 2)], [(3, 4)]]"
      by simp
    then show ?thesis by (simp only: numeral_2_eq_2)
  qed
  have t: "map (tag_strings [[], ''k1'', ''v1'', ''k2'', ''v2'']) [[(1, 2)], [(3, 4)]] =
     [[(''k1'', ''v1'')], [(''k2'', ''v2'')]]"
    by (simp add: tag_strings_def)
  from dense_tags_from_shared_cursor [of False example_parser dense_tags_example "[]"
      "[(dense_node 1 0 0)\<lparr>e_tags := [(''k1'', ''v1'')]\<rparr>,
        (dense_node 2 0 0)\<lparr>e_tags := [(''k2'', ''v2'')]\<rparr>]" "[1, 2, 0]" 3 "[]"]
    dense_tags_from_shared_cursor [of False example_parser dense_tags_example "[]"
      "[(dense_node 1 0 0)\<lparr>e_tags := [(''k1'', ''v1'')]\<rparr>,
        (dense_node 2 0 0)\<lparr>e_tags := [(''k2'', ''v2'')]\<rparr>]" "[1, 2, 0, 0]" 3 "[]"]
    e s t
  show ?thesis by simp
qed

section \<open>Assertions on dense nodes\<close>

lemma bind_e_Inl_iff: "bind_e m f = Inl e \<longleftrightarrow> m = Inl e \<or> (\<exists>x. m = Inr x \<and> f x = Inl e)"
  by (cases m) (simp_all add: bind_e_def)

lemma bind_e_error:
  assumes "bind_e m f = Inl e" and "m = Inl e \<Longrightarrow> P" and "\<And>x. m = Inr x \<Longrightarrow> f x = Inl e \<Longrightarrow> P"
  shows P
  using assms by (auto simp: bind_e_Inl_iff)

lemma get_at_error: "get_at xs i = Inl e \<Longrightarrow> dense_error ndebug e"
  by (auto simp: get_at_def dense_error_def split: if_splits)

lemma s_error: "s st i = Inl e \<Longrightarrow> dense_error ndebug e"
  by (auto simp: s_def dense_error_def split: if_splits)

lemma c_assert_error: "c_assert ndebug cond what = Inl e \<Longrightarrow> dense_error ndebug e"
  by (auto simp: c_assert_def dense_error_def split: if_splits)

lemma add_tags_loop_error:
  "add_tags_loop st kv n acc = Inl e \<Longrightarrow> dense_error ndebug e"
proof (induction st kv n acc rule: add_tags_loop.induct)
  case (1 st kv n acc)
  show ?case
  proof (cases "n < length kv \<and> kv ! n \<noteq> 0")
    case False
    with "1.prems" show ?thesis
      by (subst (asm) add_tags_loop.simps) (auto simp: Let_def split: if_splits)
  next
    case True
    with "1.prems" have
      b: "bind_e (s st (kv ! n)) (\<lambda>k.
           bind_e (get_at kv (n + 1)) (\<lambda>vi.
           bind_e (s st vi) (\<lambda>v.
           add_tags_loop st kv (n + 1 + 1) (acc @ [(k, v)])))) = Inl e"
      by (subst (asm) add_tags_loop.simps) (simp add: Let_def)
    from True have lt: "n < length kv" and nz: "kv ! n \<noteq> 0" by simp_all
    from b show ?thesis
    proof (rule bind_e_error)
      assume "s st (kv ! n) = Inl e" then show ?thesis by (rule s_error)
    next
      fix k assume "bind_e (get_at kv (n + 1)) (\<lambda>vi.
           bind_e (s st vi) (\<lambda>v.
           add_tags_loop st kv (n + 1 + 1) (acc @ [(k, v)]))) = Inl e"
      then show ?thesis
      proof (rule bind_e_error)
        assume "get_at kv (n + 1) = Inl e" then show ?thesis by (rule get_at_error)
      next
        fix vi assume "bind_e (s st vi) (\<lambda>v.
           add_tags_loop st kv (n + 1 + 1) (acc @ [(k, v)])) = Inl e"
        then show ?thesis
        proof (rule bind_e_error)
          assume "s st vi = Inl e" then show ?thesis by (rule s_error)
        next
          fix v assume "add_tags_loop st kv (n + 1 + 1) (acc @ [(k, v)]) = Inl e"
          from "1.IH" [OF lt refl refl nz this] show ?thesis .
        qed
      qed
    qed
  qed
qed

lemma add_tags_error: "add_tags st kv n = Inl e \<Longrightarrow> dense_error ndebug e"
  by (auto simp: add_tags_def split: if_splits dest: add_tags_loop_error)

lemma dense_advance_error:
  "dense_advance ndebug dense i st = Inl e \<Longrightarrow> dense_error ndebug e"
  unfolding dense_advance_def Let_def
  by (auto elim!: bind_e_error split: option.splits if_splits
      dest: get_at_error [where ndebug = ndebug] c_assert_error)

lemma dense_build_error:
  "dense_build ndebug p dense i st vis = Inl e \<Longrightarrow> dense_error ndebug e"
  unfolding dense_build_def Let_def
  by (auto elim!: bind_e_error split: option.splits if_splits prod.splits
      dest: get_at_error [where ndebug = ndebug] c_assert_error
        s_error [where ndebug = ndebug] add_tags_error [where ndebug = ndebug])

lemma dense_step_error:
  "dense_step ndebug p dense i st = Inl e \<Longrightarrow> dense_error ndebug e"
  unfolding dense_step_def
  by (auto elim!: bind_e_error dest: dense_advance_error dense_build_error)

lemma dense_loop_error:
  "dense_loop ndebug p dense i st buf = Inl e \<Longrightarrow> dense_error ndebug e"
proof (induction ndebug p dense i st buf rule: dense_loop.induct)
  case (1 ndebug p dense i st buf)
  from "1.prems" have lt: "i < length (d_id dense)"
    by (subst (asm) dense_loop.simps) (simp split: if_splits)
  with "1.prems" have "bind_e (dense_step ndebug p dense i st) (\<lambda>(st, object).
        dense_loop ndebug p dense (i + 1) st (buf @ [object])) = Inl e"
    by (subst (asm) dense_loop.simps) simp
  then show ?case
  proof (rule bind_e_error)
    assume "dense_step ndebug p dense i st = Inl e"
    then show ?thesis by (rule dense_step_error)
  next
    fix x assume x: "dense_step ndebug p dense i st = Inr x"
      and r: "(case x of (st, object) \<Rightarrow>
        dense_loop ndebug p dense (i + 1) st (buf @ [object])) = Inl e"
    obtain st' obj where xe: "x = (st', obj)" by (cases x)
    with r have "dense_loop ndebug p dense (i + 1) st' (buf @ [obj]) = Inl e" by simp
    from "1.IH" [OF lt this] show ?thesis .
  qed
qed

lemma dense_step_checked:
  assumes step: "dense_step False p dense i st = Inr (st', obj)"
    and inv: "dense_sums dense i st" and di: "d_denseinfo dense = Some di"
  shows "0 \<le> sint (sum_list (take (Suc i) (di_changeset di))) \<and>
         0 \<le> sint (sum_list (take (Suc i) (di_timestamp di))) \<and>
         - 1 \<le> sint (sum_list (map scast (take (Suc i) (di_uid di))) :: int64) \<and>
         0 \<le> sint (sum_list (map scast (take (Suc i) (di_user_sid di))) :: int64) \<and>
         0 < sint (di_version di ! i)"
proof -
  from step obtain st1 vis where adv: "dense_advance False dense i st = Inr (st1, vis)"
    and build: "dense_build False p dense i st1 vis = Inr (st', obj)"
    by (auto simp: dense_step_def bind_e_Inr_iff)
  note a = dense_advance_Some [OF adv di]
  from a(4-7) a(8) inv di have
    "last_dense_changeset st1 = sum_list (take (Suc i) (di_changeset di))"
    "last_dense_timestamp st1 = sum_list (take (Suc i) (di_timestamp di))"
    "last_dense_uid st1 = sum_list (map scast (take (Suc i) (di_uid di)))"
    "last_dense_user_sid st1 = sum_list (map scast (take (Suc i) (di_user_sid di)))"
    by (simp_all add: dense_sums_def sum_list_take_Suc sum_list_map_take_Suc)
  with a(10) dense_build_Inr(7) [OF build di] show ?thesis by simp
qed

lemma dense_step_violation:
  assumes di: "d_denseinfo dense = Some di"
    and r: "i < length (d_id dense)" "i < length (d_lat dense)" "i < length (d_lon dense)"
      "i < length (di_changeset di)" "i < length (di_timestamp di)" "i < length (di_uid di)"
      "i < length (di_user_sid di)" "i < length (di_version di)"
      "di_visible di = [] \<or> i < length (di_visible di)"
    and v: "sint (last_dense_changeset st + di_changeset di ! i) < 0 \<or>
            sint (last_dense_timestamp st + di_timestamp di ! i) < 0 \<or>
            sint (last_dense_uid st + scast (di_uid di ! i)) < - 1 \<or>
            sint (last_dense_user_sid st + scast (di_user_sid di ! i)) < 0 \<or>
            sint (di_version di ! i) \<le> 0"
  shows "\<exists>what. dense_step False p dense i st = Inl (assertion_failed what)"
proof (cases "dense_step False p dense i st")
  case (Inl e)
  have vis: "\<exists>b. (if length (di_visible di) > 0 then get_at (di_visible di) i else Inr True) = Inr b"
    using r(9) by (auto simp: get_at_def)
  then obtain b where b: "(if length (di_visible di) > 0 then get_at (di_visible di) i else Inr True) = Inr b"
    by blast
  let ?st1 = "st\<lparr>last_dense_id := last_dense_id st + d_id dense ! i,
               last_dense_latitude := last_dense_latitude st + d_lat dense ! i,
               last_dense_longitude := last_dense_longitude st + d_lon dense ! i,
               last_dense_changeset := last_dense_changeset st + di_changeset di ! i,
               last_dense_timestamp := last_dense_timestamp st + di_timestamp di ! i,
               last_dense_uid := last_dense_uid st + scast (di_uid di ! i),
               last_dense_user_sid := last_dense_user_sid st + scast (di_user_sid di ! i)\<rparr>"
  have adv: "dense_advance False dense i st =
      bind_e (c_assert False (0 \<le> sint (last_dense_changeset ?st1)) ''last_dense_changeset >= 0'') (\<lambda>_.
      bind_e (c_assert False (0 \<le> sint (last_dense_timestamp ?st1)) ''last_dense_timestamp >= 0'') (\<lambda>_.
      bind_e (c_assert False (- 1 \<le> sint (last_dense_uid ?st1)) ''last_dense_uid >= -1'') (\<lambda>_.
      bind_e (c_assert False (0 \<le> sint (last_dense_user_sid ?st1)) ''last_dense_user_sid >= 0'') (\<lambda>_.
      Inr (?st1, b)))))"
    unfolding dense_advance_def using di r(1-7) b
    by (simp add: get_at_def Let_def)
  show ?thesis
  proof (cases "dense_advance False dense i st")
    case l: (Inl e')
    have "\<exists>what. e' = assertion_failed what"
      using l unfolding adv
      by (auto simp: c_assert_def bind_e_Inl_iff split: if_splits)
    with l show ?thesis by (auto simp: dense_step_def)
  next
    case (Inr x)
    with adv have x: "x = (?st1, b)"
      and ok: "0 \<le> sint (last_dense_changeset ?st1)" "0 \<le> sint (last_dense_timestamp ?st1)"
        "- 1 \<le> sint (last_dense_uid ?st1)" "0 \<le> sint (last_dense_user_sid ?st1)"
      by (auto simp: c_assert_def bind_e_Inr_iff split: if_splits)
    from ok v have bad: "sint (di_version di ! i) \<le> 0" by simp
    have "dense_build False p dense i ?st1 b = Inl (assertion_failed ''v > 0'')"
      unfolding dense_build_def using di r(8) bad
      by (simp add: get_at_def c_assert_def Let_def)
    with Inr x show ?thesis by (simp add: dense_step_def)
  qed
next
  case (Inr x)
  obtain st' obj where x: "x = (st', obj)" by (cases x)
  from Inr x obtain st1 vis where adv: "dense_advance False dense i st = Inr (st1, vis)"
    and build: "dense_build False p dense i st1 vis = Inr (st', obj)"
    by (auto simp: dense_step_def bind_e_Inr_iff)
  from dense_advance_Some(8,10) [OF adv di] dense_build_Inr(7) [OF build di] v
  show ?thesis by simp
qed

lemma dense_step_unchecked:
  assumes "d_denseinfo dense = Some di"
    and "i < length (d_id dense)" "i < length (d_lat dense)" "i < length (d_lon dense)"
    and "i < length (di_changeset di)" "i < length (di_timestamp di)" "i < length (di_uid di)"
    and "i < length (di_user_sid di)" "i < length (di_version di)"
    and "di_visible di = [] \<or> i < length (di_visible di)"
  shows "s (m_stringtable p) (scast (last_dense_user_sid st + scast (di_user_sid di ! i))) = Inr u
         \<Longrightarrow> add_tags (m_stringtable p) (d_keys_vals dense) (last_dense_tag st) = Inr (tags, n)
         \<Longrightarrow> \<exists>st' obj. dense_step True p dense i st = Inr (st', obj) \<and>
               e_id obj = last_dense_id st + d_id dense ! i \<and>
               e_version obj = Some (di_version di ! i) \<and>
               e_changeset obj = Some (ucast (last_dense_changeset st + di_changeset di ! i)) \<and>
               e_timestamp obj =
                 Some ((last_dense_timestamp st + di_timestamp di ! i) * m_date_factor p) \<and>
               e_uid obj = Some (scast (last_dense_uid st + scast (di_uid di ! i))) \<and>
               e_user obj = u \<and> e_tags obj = tags"
    and "s (m_stringtable p) (scast (last_dense_user_sid st + scast (di_user_sid di ! i))) = Inl e
         \<Longrightarrow> dense_step True p dense i st = Inl e"
  using assms
  by (auto simp: dense_step_def dense_advance_def dense_build_def get_at_def c_assert_def
      Let_def)

text \<open>
  Claim C2, as the code has it. The five conditions are \<open>assert\<close>s. In a build with
  assertions, a step at which an accumulated value violates one of them (the arrays being
  long enough to be read) stops at the failed assertion, which aborts the process; a group
  that is decoded to the end satisfies them at every step. No \<open>pbf_error\<close> is thrown
  from the decoding of a dense group. With \<open>NDEBUG\<close> no assertion fails, the conditions
  are not checked: a step whose arrays are long enough goes on with the values as they are,
  and it emits the node with them when the string table has an entry at the accumulated
  \<open>user_sid\<close> and the tags can be read; when the string table has no such entry (as for
  a \<open>user_sid\<close> of \<open>-1\<close>) the step reads the string table out of range.
\<close>

theorem dense_assertions_abort:
  "(d_denseinfo dense = Some di \<and>
    i < length (d_id dense) \<and> i < length (d_lat dense) \<and> i < length (d_lon dense) \<and>
    i < length (di_changeset di) \<and> i < length (di_timestamp di) \<and> i < length (di_uid di) \<and>
    i < length (di_user_sid di) \<and> i < length (di_version di) \<and>
    (di_visible di = [] \<or> i < length (di_visible di)) \<and>
    (sint (last_dense_changeset st + di_changeset di ! i) < 0 \<or>
     sint (last_dense_timestamp st + di_timestamp di ! i) < 0 \<or>
     sint (last_dense_uid st + scast (di_uid di ! i)) < - 1 \<or>
     sint (last_dense_user_sid st + scast (di_user_sid di ! i)) < 0 \<or>
     sint (di_version di ! i) \<le> 0) \<longrightarrow>
      (\<exists>what. dense_step False p dense i st = Inl (assertion_failed what))) \<and>
   (d_denseinfo dense = Some di \<and> parse_dense_node_group False p dense buf = Inr out \<longrightarrow>
      (\<forall>k < length (d_id dense).
         0 \<le> sint (sum_list (take (Suc k) (di_changeset di))) \<and>
         0 \<le> sint (sum_list (take (Suc k) (di_timestamp di))) \<and>
         - 1 \<le> sint (sum_list (map scast (take (Suc k) (di_uid di))) :: int64) \<and>
         0 \<le> sint (sum_list (map scast (take (Suc k) (di_user_sid di))) :: int64) \<and>
         0 < sint (di_version di ! k))) \<and>
   (\<forall>what. parse_dense_node_group ndebug p dense buf \<noteq> Inl (pbf_error what)) \<and>
   (\<forall>what. parse_dense_node_group True p dense buf \<noteq> Inl (assertion_failed what)) \<and>
   (d_denseinfo dense = Some di \<and>
    i < length (d_id dense) \<and> i < length (d_lat dense) \<and> i < length (d_lon dense) \<and>
    i < length (di_changeset di) \<and> i < length (di_timestamp di) \<and> i < length (di_uid di) \<and>
    i < length (di_user_sid di) \<and> i < length (di_version di) \<and>
    (di_visible di = [] \<or> i < length (di_visible di)) \<and>
    s (m_stringtable p) (scast (last_dense_user_sid st + scast (di_user_sid di ! i))) = Inr u \<and>
    add_tags (m_stringtable p) (d_keys_vals dense) (last_dense_tag st) = Inr (tags, n) \<longrightarrow>
      (\<exists>st' obj. dense_step True p dense i st = Inr (st', obj) \<and>
         e_id obj = last_dense_id st + d_id dense ! i \<and>
         e_version obj = Some (di_version di ! i) \<and>
         e_changeset obj = Some (ucast (last_dense_changeset st + di_changeset di ! i)) \<and>
         e_timestamp obj =
           Some ((last_dense_timestamp st + di_timestamp di ! i) * m_date_factor p) \<and>
         e_uid obj = Some (scast (last_dense_uid st + scast (di_uid di ! i))) \<and>
         e_user obj = u \<and> e_tags obj = tags)) \<and>
   (d_denseinfo dense = Some di \<and>
    i < length (d_id dense) \<and> i < length (d_lat dense) \<and> i < length (d_lon dense) \<and>
    i < length (di_changeset di) \<and> i < length (di_timestamp di) \<and> i < length (di_uid di) \<and>
    i < length (di_user_sid di) \<and> i < length (di_version di) \<and>
    (di_visible di = [] \<or> i < length (di_visible di)) \<and>
    s (m_stringtable p) (scast (last_dense_user_sid st + scast (di_user_sid di ! i))) = Inl e \<longrightarrow>
      dense_step True p dense i st = Inl e)"
proof -
  have A: "\<exists>what. dense_step False p dense i st = Inl (assertion_failed what)"
    if "d_denseinfo dense = Some di \<and>
    i < length (d_id dense) \<and> i < length (d_lat dense) \<and> i < length (d_lon dense) \<and>
    i < length (di_changeset di) \<and> i < length (di_timestamp di) \<and> i < length (di_uid di) \<and>
    i < length (di_user_sid di) \<and> i < length (di_version di) \<and>
    (di_visible di = [] \<or> i < length (di_visible di)) \<and>
    (sint (last_dense_changeset st + di_changeset di ! i) < 0 \<or>
     sint (last_dense_timestamp st + di_timestamp di ! i) < 0 \<or>
     sint (last_dense_uid st + scast (di_uid di ! i)) < - 1 \<or>
     sint (last_dense_user_sid st + scast (di_user_sid di ! i)) < 0 \<or>
     sint (di_version di ! i) \<le> 0)"
    using that by (intro dense_step_violation [of dense di i st p]) simp_all
  let ?Q = "\<lambda>k (obj :: OSMEntity).
         0 \<le> sint (sum_list (take (Suc k) (di_changeset di))) \<and>
         0 \<le> sint (sum_list (take (Suc k) (di_timestamp di))) \<and>
         - 1 \<le> sint (sum_list (map scast (take (Suc k) (di_uid di))) :: int64) \<and>
         0 \<le> sint (sum_list (map scast (take (Suc k) (di_user_sid di))) :: int64) \<and>
         0 < sint (di_version di ! k)"
  have B: "\<forall>k < length (d_id dense). ?Q k undefined"
    if a: "d_denseinfo dense = Some di \<and> parse_dense_node_group False p dense buf = Inr out"
  proof -
    have step: "\<forall>i st st' obj. i < length (d_id dense) \<longrightarrow> dense_sums dense i st \<longrightarrow>
        dense_step False p dense i st = Inr (st', obj) \<longrightarrow> dense_sums dense (Suc i) st' \<and> ?Q i obj"
    proof (intro allI impI)
      fix i st st' obj
      assume "i < length (d_id dense)" and inv: "dense_sums dense i st"
        and st: "dense_step False p dense i st = Inr (st', obj)"
      from dense_step_sums(1) [OF st inv] dense_step_checked [OF st inv] a
      show "dense_sums dense (Suc i) st' \<and> ?Q i obj" by blast
    qed
    from a have "dense_loop False p dense 0 dense_state_init buf = Inr out"
      by (simp add: parse_dense_node_group_def)
    from dense_loop_rule [where I = "dense_sums dense" and Q = ?Q, OF step dense_sums_init this]
    show ?thesis by auto
  qed
  have C: "parse_dense_node_group ndebug p dense buf \<noteq> Inl (pbf_error what)" for what
    using dense_loop_error [of ndebug p dense 0 dense_state_init buf "pbf_error what"]
    by (auto simp: parse_dense_node_group_def dense_error_def)
  have D: "parse_dense_node_group True p dense buf \<noteq> Inl (assertion_failed what)" for what
    using dense_loop_error [of True p dense 0 dense_state_init buf "assertion_failed what"]
    by (auto simp: parse_dense_node_group_def dense_error_def)
  have E: "\<exists>st' obj. dense_step True p dense i st = Inr (st', obj) \<and>
   e_id obj = last_dense_id st + d_id dense ! i \<and>
   e_version obj = Some (di_version di ! i) \<and>
   e_changeset obj = Some (ucast (last_dense_changeset st + di_changeset di ! i)) \<and>
   e_timestamp obj =
     Some ((last_dense_timestamp st + di_timestamp di ! i) * m_date_factor p) \<and>
   e_uid obj = Some (scast (last_dense_uid st + scast (di_uid di ! i))) \<and>
   e_user obj = u \<and> e_tags obj = tags"
    if "d_denseinfo dense = Some di \<and>
    i < length (d_id dense) \<and> i < length (d_lat dense) \<and> i < length (d_lon dense) \<and>
    i < length (di_changeset di) \<and> i < length (di_timestamp di) \<and> i < length (di_uid di) \<and>
    i < length (di_user_sid di) \<and> i < length (di_version di) \<and>
    (di_visible di = [] \<or> i < length (di_visible di)) \<and>
    s (m_stringtable p) (scast (last_dense_user_sid st + scast (di_user_sid di ! i))) = Inr u \<and>
    add_tags (m_stringtable p) (d_keys_vals dense) (last_dense_tag st) = Inr (tags, n)"
    using that by (intro dense_step_unchecked(1) [of dense di i p st u tags n]) simp_all
  have F: "dense_step True p dense i st = Inl e"
    if "d_denseinfo dense = Some di \<and>
    i < length (d_id dense) \<and> i < length (d_lat dense) \<and> i < length (d_lon dense) \<and>
    i < length (di_changeset di) \<and> i < length (di_timestamp di) \<and> i < length (di_uid di) \<and>
    i < length (di_user_sid di) \<and> i < length (di_version di) \<and>
    (di_visible di = [] \<or> i < length (di_visible di)) \<and>
    s (m_stringtable p) (scast (last_dense_user_sid st + scast (di_user_sid di ! i))) = Inl e"
    using that by (intro dense_step_unchecked(2) [of dense di i p st e]) simp_all
  from A B C D E F show ?thesis by blast
qed

theorem dense_assertions_abort_witness:
  "dense_step False example_parser bad_dense 0 dense_state_init =
     Inl (assertion_failed ''last_dense_timestamp >= 0'') \<and>
   parse_dense_node_group False example_parser dense_with_info [] =
     Inr [with_info (dense_node 7 (- 250) (- 1)) 1400000000] \<and>
   0 < sint (di_version example_denseinfo ! 0) \<and>
   0 \<le> sint (sum_list (take (Suc 0) (di_timestamp example_denseinfo))) \<and>
   bind_e (dense_step True example_parser bad_dense 0 dense_state_init)
     (\<lambda>(st, obj). Inr obj) = Inr (with_info (dense_node 7 (- 250) (- 1)) (- 1)) \<and>
   s (m_stringtable example_parser) (scast (- 1 :: int64)) = Inl out_of_range_read \<and>
   dense_step True example_parser bad_sid_dense 0 dense_state_init = Inl out_of_range_read"
proof -
  have s: "dense_step False example_parser bad_dense 0 dense_state_init =
     Inl (assertion_failed ''last_dense_timestamp >= 0'')"
    by (simp add: dense_eval bad_dense_def example_denseinfo_def example_parser_def)
  have g: "parse_dense_node_group False example_parser dense_with_info [] =
     Inr [with_info (dense_node 7 (- 250) (- 1)) 1400000000]"
    by (simp add: timestamp_eval example_parser_def)
  have di: "d_denseinfo dense_with_info = Some example_denseinfo"
    by (simp add: dense_with_info_def)
  have len: "0 < length (d_id dense_with_info)" by (simp add: dense_with_info_def)
  have bad: "d_denseinfo bad_dense = Some (example_denseinfo\<lparr>di_timestamp := [- 1]\<rparr>)"
    by (simp add: bad_dense_def)
  have sid: "d_denseinfo bad_sid_dense = Some (example_denseinfo\<lparr>di_user_sid := [- 1]\<rparr>)"
    by (simp add: bad_sid_dense_def)
  have n: "bind_e (dense_step True example_parser bad_dense 0 dense_state_init)
     (\<lambda>(st, obj). Inr obj) = Inr (with_info (dense_node 7 (- 250) (- 1)) (- 1))"
    by (simp add: timestamp_eval bad_dense_def example_parser_def)
  have l: "s (m_stringtable example_parser) (scast (- 1 :: int64)) = Inl out_of_range_read"
    by (simp add: s_def example_parser_def)
  note bad_step = dense_assertions_abort [of bad_dense
      "example_denseinfo\<lparr>di_timestamp := [- 1]\<rparr>" 0 dense_state_init example_parser
      "[]" "[]" False "[]" "[]" 0 out_of_range_read]
  from bad_step [THEN conjunct1] bad
  have v: "\<exists>what. dense_step False example_parser bad_dense 0 dense_state_init =
      Inl (assertion_failed what)"
    by (simp add: bad_dense_def example_denseinfo_def dense_state_init_def)
  from bad_step [THEN conjunct2, THEN conjunct2, THEN conjunct2, THEN conjunct2, THEN conjunct1]
    bad
  have e: "\<exists>st' obj. dense_step True example_parser bad_dense 0 dense_state_init = Inr (st', obj)
      \<and> e_timestamp obj = Some (- 1)"
    by (simp add: bad_dense_def example_denseinfo_def dense_state_init_def s_def
        add_tags_def example_parser_def) blast
  from dense_assertions_abort [of bad_sid_dense "example_denseinfo\<lparr>di_user_sid := [- 1]\<rparr>" 0
      dense_state_init example_parser "[]" "[]" False "[]" "[]" 0 out_of_range_read,
      THEN conjunct2, THEN conjunct2, THEN conjunct2, THEN conjunct2, THEN conjunct2] sid
  have f: "dense_step True example_parser bad_sid_dense 0 dense_state_init = Inl out_of_range_read"
    by (simp add: bad_sid_dense_def example_denseinfo_def dense_state_init_def s_def
        example_parser_def)
  from dense_assertions_abort [of dense_with_info example_denseinfo 0 dense_state_init
      example_parser "[]" "[with_info (dense_node 7 (- 250) (- 1)) 1400000000]" False,
      THEN conjunct2, THEN conjunct1] di g len
  have c: "0 < sint (di_version example_denseinfo ! 0) \<and>
      0 \<le> sint (sum_list (take (Suc 0) (di_timestamp example_denseinfo)))"
    by simp
  from v e f c s g n l
  show ?thesis by simp
qed

theorem dense_violation_counterexample:
  "parse_dense_node_group False example_parser bad_dense [] =
     Inl (assertion_failed ''last_dense_timestamp >= 0'') \<and>
   parse_dense_node_group True example_parser bad_dense [] =
     Inr [with_info (dense_node 7 (- 250) (- 1)) (- 1)]"
  by (simp add: timestamp_eval bad_dense_def example_parser_def)

section \<open>Reading the header blob\<close>

lemma read_blob_header_eof:
  "read_blob_header ext expected_type \<lparr> m_queue = [] # q, m_buffer = [] \<rparr> =
     (Inr 0, \<lparr> m_queue = q, m_buffer = [] \<rparr>)"
  by (simp add: read_blob_header_def InputQueueReader_call_def fill_buffer.simps)

lemma HeaderBlobParser_init_zero:
  "HeaderBlobParser_init 0 r = (Inr [], r)"
  by (simp add: HeaderBlobParser_init_def BlobParser_init_def new_unsigned_char_array_def
      max_uncompressed_blob_size_def InputQueueReader_call_def fill_buffer.simps)

lemma PBFInputFormat_init_empty:
  "PBFInputFormat_init ext ndebug ([] # q) =
     bind_e (BlobParser_call ext ndebug (HeaderBlobParser_handle_blob ext) [])
       (\<lambda>m_header. Inr (m_header, \<lparr> m_queue = q, m_buffer = [] \<rparr>))"
  by (simp add: PBFInputFormat_init_def read_blob_header_eof HeaderBlobParser_init_zero)

text \<open>
  Claim C3, as the code has it. On an empty input the read of the four size bytes meets
  the end mark, and \<open>read_blob_header\<close> returns 0 without throwing. The constructor
  goes on with a header blob of size 0, whose read of no bytes succeeds; the error comes
  from \<open>doit()\<close>: \<open>blob contains no data\<close> where protobuf parses the empty array as a
  \<open>Blob\<close> with no payload, \<open>failed to parse blob\<close> where it rejects it.
\<close>

theorem empty_input_no_data:
  "read_blob_header ext ''OSMHeader'' \<lparr> m_queue = [] # q, m_buffer = [] \<rparr> =
     (Inr 0, \<lparr> m_queue = q, m_buffer = [] \<rparr>) \<and>
   (ParseFromArray_Blob ext [] = Some b \<and> blob_raw b = None \<and> blob_zlib_data b = None \<and>
    blob_lzma_data b = None \<longrightarrow>
      PBFInputFormat_init ext ndebug ([] # q) = Inl (pbf_error ''blob contains no data'')) \<and>
   (ParseFromArray_Blob ext [] = None \<longrightarrow>
      PBFInputFormat_init ext ndebug ([] # q) = Inl (pbf_error ''failed to parse blob''))"
  by (simp add: read_blob_header_eof PBFInputFormat_init_empty BlobParser_call_def)

theorem empty_input_no_data_witness:
  "ParseFromArray_Blob empty_message_protobuf [] =
     Some \<lparr> blob_raw = None, blob_raw_size = 0, blob_zlib_data = None, blob_lzma_data = None \<rparr> \<and>
   PBFInputFormat_init empty_message_protobuf False [[]] =
     Inl (pbf_error ''blob contains no data'') \<and>
   ParseFromArray_Blob (empty_message_protobuf\<lparr>ParseFromArray_Blob := (\<lambda>bs. None)\<rparr>) [] = None \<and>
   PBFInputFormat_init (empty_message_protobuf\<lparr>ParseFromArray_Blob := (\<lambda>bs. None)\<rparr>) False [[]] =
     Inl (pbf_error ''failed to parse blob'')"
  using empty_input_no_data [of empty_message_protobuf "[]"
      "\<lparr> blob_raw = None, blob_raw_size = 0, blob_zlib_data = None, blob_lzma_data = None \<rparr>" False]
    empty_input_no_data [of "empty_message_protobuf\<lparr>ParseFromArray_Blob := (\<lambda>bs. None)\<rparr>" "[]"
      undefined False]
  by (simp add: empty_message_protobuf_def)

theorem empty_input_counterexample:
  "read_blob_header empty_message_protobuf ''OSMHeader'' \<lparr> m_queue = [[]], m_buffer = [] \<rparr> =
     (Inr 0, \<lparr> m_queue = [], m_buffer = [] \<rparr>) \<and>
   PBFInputFormat_init empty_message_protobuf False [[]] =
     Inl (pbf_error ''blob contains no data'') \<and>
   error_kind (pbf_error ''blob contains no data'') = Some Corrupt"
  by (simp add: read_blob_header_eof PBFInputFormat_init_empty BlobParser_call_def
      empty_message_protobuf_def error_kind_def)

lemma to_string_example: "to_string 33554433 = ''33554433''"
  by (simp add: to_string_def to_string_nat.simps char_of_def bit_Suc_0_iff)

text \<open>
  Claim C10 at a negative size and at a size above the limit. The buffer of \<open>size\<close>
  bytes is allocated by the member initialiser before the body of the constructor checks
  \<open>size\<close>: a negative size ends in \<open>std::bad_array_new_length\<close>, not in the
  \<open>pbf_error\<close> of the check. A size above 32 MiB reaches the check. In both cases the
  input queue reader is left as it was.
\<close>

theorem blob_size_checked_after_allocation:
  "BlobParser_init (- 1) r = (Inl bad_array_new_length, r) \<and>
   BlobParser_init 33554433 r = (Inl (pbf_error ''invalid blob size: 33554433''), r)"
  by (simp add: BlobParser_init_def new_unsigned_char_array_def max_uncompressed_blob_size_def
      to_string_example)

section \<open>The collector\<close>

subsection \<open>The second pass\<close>

lemma map_update_same: "f x = f (xs ! i) \<Longrightarrow> map f (xs[i := x]) = map f xs"
  by (cases "i < length xs") (simp_all add: map_update list_update_same_conv list_update_beyond)

lemma moving_loop_shape:
  "moving_loop ndebug old_offset new_offset mmv it range_end = Inr mmv' \<Longrightarrow>
     map (\<lambda>e. (member_id e, relation_pos e)) mmv' = map (\<lambda>e. (member_id e, relation_pos e)) mmv"
proof (induction ndebug old_offset new_offset mmv it range_end rule: moving_loop.induct)
  case (1 ndebug old_offset new_offset mmv it range_end)
  show ?case
  proof (cases "it < range_end")
    case False
    with "1.prems" show ?thesis by (simp add: moving_loop.simps)
  next
    case True
    with "1.prems" have rec: "moving_loop ndebug old_offset new_offset
          (mmv[it := (mmv ! it)\<lparr>buffer_offset := Some new_offset\<rparr>]) (it + 1) range_end = Inr mmv'"
      by (subst (asm) moving_loop.simps) (auto simp: bind_e_Inr_iff)
    have "map (\<lambda>e. (member_id e, relation_pos e))
            (mmv[it := (mmv ! it)\<lparr>buffer_offset := Some new_offset\<rparr>]) =
          map (\<lambda>e. (member_id e, relation_pos e)) mmv"
      by (rule map_update_same) simp
    with "1.IH" [OF True rec] show ?thesis by simp
  qed
qed

lemma moving_in_buffer_frame:
  assumes "moving_in_buffer ndebug c old_offset new_offset = Inr c'"
  shows "m_relations c' = m_relations c" "m_calls c' = m_calls c"
    "index_shape (m_member_meta c') = index_shape (m_member_meta c)"
    "m_relations_buffer c' = m_relations_buffer c"
proof -
  from assms obtain object where g: "get (m_members_buffer c) old_offset = Inr object"
    by (auto simp: moving_in_buffer_def bind_e_Inr_iff)
  obtain first second where
    er: "equal_range (m_member_meta c (e_type object)) (e_id object) = (first, second)"
    by (cases "equal_range (m_member_meta c (e_type object)) (e_id object)")
  from assms g er obtain mmv' where
    ml: "moving_loop ndebug old_offset new_offset (m_member_meta c (e_type object)) first second
          = Inr mmv'"
    and c': "c' = c\<lparr>m_member_meta := (m_member_meta c)(e_type object := mmv')\<rparr>"
    by (auto simp: moving_in_buffer_def bind_e_Inr_iff Let_def)
  from c' show "m_relations c' = m_relations c" "m_calls c' = m_calls c"
    "m_relations_buffer c' = m_relations_buffer c" by simp_all
  from moving_loop_shape [OF ml] c'
  show "index_shape (m_member_meta c') = index_shape (m_member_meta c)"
    by (auto simp: index_shape_def fun_eq_iff)
qed

lemma apply_moves_frame:
  "apply_moves ndebug c moves = Inr c' \<Longrightarrow>
     m_relations c' = m_relations c \<and> m_calls c' = m_calls c \<and>
     index_shape (m_member_meta c') = index_shape (m_member_meta c) \<and>
     m_relations_buffer c' = m_relations_buffer c"
proof (induction moves arbitrary: c)
  case Nil
  then show ?case by simp
next
  case (Cons mv moves)
  obtain old_offset new_offset where mv: "mv = (old_offset, new_offset)" by (cases mv)
  from Cons.prems mv obtain c1 where m: "moving_in_buffer ndebug c old_offset new_offset = Inr c1"
    and r: "apply_moves ndebug c1 moves = Inr c'"
    by (auto simp: bind_e_Inr_iff)
  from Cons.IH [OF r] moving_in_buffer_frame [OF m] show ?case by simp
qed

lemma possibly_purge_frame:
  assumes "possibly_purge_deleted_members T ndebug c = Inr c'"
  shows "m_relations c' = m_relations c" "m_calls c' = m_calls c"
    "index_shape (m_member_meta c') = index_shape (m_member_meta c)"
    "m_relations_buffer c' = m_relations_buffer c"
proof -
  let ?c1 = "c\<lparr>m_count_complete := m_count_complete c + 1\<rparr>"
  have "m_relations c' = m_relations c \<and> m_calls c' = m_calls c \<and>
     index_shape (m_member_meta c') = index_shape (m_member_meta c) \<and>
     m_relations_buffer c' = m_relations_buffer c"
  proof (cases "m_count_complete c + 1 > 1000")
    case False
    with assms show ?thesis by (auto simp: possibly_purge_deleted_members_def Let_def)
  next
    case True
    with assms obtain moves purged c2 where
      "apply_moves ndebug ?c1 moves = Inr c2"
      "c' = c2\<lparr>m_members_buffer := purged, m_count_complete := 0\<rparr>"
      by (auto simp: possibly_purge_deleted_members_def Let_def bind_e_Inr_iff split: prod.splits)
    with apply_moves_frame [of ndebug ?c1 moves c2] show ?thesis by simp
  qed
  then show "m_relations c' = m_relations c" "m_calls c' = m_calls c"
    "index_shape (m_member_meta c') = index_shape (m_member_meta c)"
    "m_relations_buffer c' = m_relations_buffer c" by simp_all
qed

lemma completed_slots_append:
  "completed_slots (xs @ ys) = completed_slots xs @ completed_slots ys"
  by (induction xs rule: completed_slots.induct) simp_all

lemma find_step_Inr:
  assumes "find_step T ndebug object pos it c = Inr c'"
  defines "p \<equiv> relation_pos (m_member_meta c (e_type object) ! it)"
  defines "rm \<equiv> got_one_member (m_relations c ! p)"
  shows "p < length (m_relations c)"
    and "has_all_members rm \<Longrightarrow>
           m_calls c' = m_calls c @ [complete_relation p rm] \<and>
           m_relations c' = (m_relations c)[p := RelationMeta_default]"
    and "\<not> has_all_members rm \<Longrightarrow>
           m_calls c' = m_calls c \<and> m_relations c' = (m_relations c)[p := rm]"
    and "index_shape (m_member_meta c') = index_shape (m_member_meta c)"
proof -
  let ?t = "e_type object"
  let ?e = "(m_member_meta c ?t ! it)\<lparr>buffer_offset := Some pos\<rparr>"
  let ?c1 = "c\<lparr>m_member_meta := (m_member_meta c)(?t := (m_member_meta c ?t)[it := ?e])\<rparr>"
  have pe: "relation_pos ?e = p" by (simp add: p_def)
  have sh1: "index_shape (m_member_meta ?c1) = index_shape (m_member_meta c)"
    by (auto simp: index_shape_def fun_eq_iff intro!: map_update_same)
  from assms(1) have lt: "p < length (m_relations c)"
    unfolding find_step_def Let_def pe
    by (auto simp: bind_e_Inr_iff get_at_Inr_iff)
  then show "p < length (m_relations c)" .
  let ?c2 = "?c1\<lparr>m_relations := (m_relations c)[p := rm]\<rparr>"
  from assms(1) lt have rest:
    "(if has_all_members rm then
        possibly_purge_deleted_members T ndebug
          (?c2\<lparr>m_calls := m_calls c @ [complete_relation p rm],
                m_relations := (m_relations c)[p := rm, p := RelationMeta_default]\<rparr>)
      else Inr ?c2) = Inr c'"
    unfolding find_step_def Let_def pe
    by (auto simp: bind_e_Inr_iff get_at_Inr_iff rm_def split: if_splits)
  show "m_calls c' = m_calls c @ [complete_relation p rm] \<and>
           m_relations c' = (m_relations c)[p := RelationMeta_default]"
    if "has_all_members rm"
    using rest that possibly_purge_frame(1,2) [of T ndebug _ c'] by auto
  show "m_calls c' = m_calls c \<and> m_relations c' = (m_relations c)[p := rm]"
    if "\<not> has_all_members rm"
    using rest that by auto
  show "index_shape (m_member_meta c') = index_shape (m_member_meta c)"
  proof (cases "has_all_members rm")
    case True
    with rest possibly_purge_frame(3) [of T ndebug _ c'] sh1 show ?thesis by auto
  next
    case False
    with rest sh1 show ?thesis by auto
  qed
qed

lemma find_step_slots:
  assumes "find_step T ndebug object pos it c = Inr c'"
  shows "slots_of c' =
           slot_step (relation_pos (m_member_meta c (e_type object) ! it)) (slots_of c)"
    and "list_all complete_call_ok (m_calls c) \<Longrightarrow> list_all complete_call_ok (m_calls c')"
proof -
  let ?p = "relation_pos (m_member_meta c (e_type object) ! it)"
  let ?rm = "got_one_member (m_relations c ! ?p)"
  note f = find_step_Inr(2,3) [OF assms]
  show "slots_of c' = slot_step ?p (slots_of c)"
  proof (cases "has_all_members ?rm")
    case True
    with f(1) show ?thesis
      by (simp add: slots_of_def slot_step_def Let_def completed_slots_append)
  next
    case False
    with f(2) show ?thesis
      by (simp add: slots_of_def slot_step_def Let_def)
  qed
  show "list_all complete_call_ok (m_calls c')" if "list_all complete_call_ok (m_calls c)"
  proof (cases "has_all_members ?rm")
    case True
    with f(1) that show ?thesis by simp
  next
    case False
    with f(2) that show ?thesis by simp
  qed
qed

lemma index_shape_maps:
  assumes "index_shape mm' = index_shape mm"
  shows "map member_id (mm' t) = map member_id (mm t)"
    and "map relation_pos (mm' t) = map relation_pos (mm t)"
    and "length (mm' t) = length (mm t)"
proof -
  from assms have e: "map (\<lambda>e. (member_id e, relation_pos e)) (mm' t) =
      map (\<lambda>e. (member_id e, relation_pos e)) (mm t)"
    by (simp add: index_shape_def fun_eq_iff)
  from arg_cong [OF e, of "map fst"] show "map member_id (mm' t) = map member_id (mm t)"
    by (simp add: comp_def)
  from arg_cong [OF e, of "map snd"] show "map relation_pos (mm' t) = map relation_pos (mm t)"
    by (simp add: comp_def)
  from arg_cong [OF e, of length] show "length (mm' t) = length (mm t)" by simp
qed

lemma equal_range_ids:
  "equal_range mmv v =
     (length (takeWhile (\<lambda>i. sint i < sint v) (map member_id mmv)),
      length (takeWhile (\<lambda>i. \<not> sint v < sint i) (map member_id mmv)))"
  by (simp add: equal_range_def takeWhile_map comp_def)

lemma equal_range_shape:
  assumes "index_shape mm' = index_shape mm"
  shows "equal_range (mm' t) v = equal_range (mm t) v"
  unfolding equal_range_ids index_shape_maps(1) [OF assms, of t] ..

lemma range_hits_slots:
  "range_hits mmv a b = take (b - a) (drop a (map relation_pos mmv))"
  by (simp add: range_hits_def take_map drop_map)

lemma range_hits_shape:
  assumes "index_shape mm' = index_shape mm"
  shows "range_hits (mm' t) a b = range_hits (mm t) a b"
  unfolding range_hits_slots index_shape_maps(2) [OF assms, of t] ..

lemma object_hits_shape:
  assumes "index_shape mm' = index_shape mm"
  shows "object_hits T mm' = object_hits T mm"
proof
  fix object
  show "object_hits T mm' object = object_hits T mm object"
    unfolding object_hits_def equal_range_shape [OF assms] range_hits_shape [OF assms] ..
qed

lemma range_hits_step:
  "it < range_end \<Longrightarrow> range_end \<le> length mmv \<Longrightarrow>
     range_hits mmv it range_end = relation_pos (mmv ! it) # range_hits mmv (it + 1) range_end"
proof -
  assume a: "it < range_end" "range_end \<le> length mmv"
  then have d: "drop it mmv = mmv ! it # drop (Suc it) mmv"
    by (simp add: Cons_nth_drop_Suc)
  from a have "range_end - it = Suc (range_end - (it + 1))" by simp
  with d show ?thesis by (simp add: range_hits_def)
qed

lemma range_hits_empty: "\<not> it < range_end \<Longrightarrow> range_hits mmv it range_end = []"
  by (simp add: range_hits_def)

lemma slot_step_length: "length (fst (slot_step p sl)) = length (fst sl)"
  by (cases sl) (simp add: slot_step_def Let_def)

lemma find_loop_slots:
  "find_loop T ndebug object pos it range_end c = Inr c' \<Longrightarrow>
   range_end \<le> length (m_member_meta c (e_type object)) \<Longrightarrow>
     slots_of c' = foldl (\<lambda>sl p. slot_step p sl) (slots_of c)
                     (range_hits (m_member_meta c (e_type object)) it range_end) \<and>
     index_shape (m_member_meta c') = index_shape (m_member_meta c) \<and>
     (list_all complete_call_ok (m_calls c) \<longrightarrow> list_all complete_call_ok (m_calls c')) \<and>
     (\<forall>p \<in> set (range_hits (m_member_meta c (e_type object)) it range_end).
        p < length (m_relations c)) \<and>
     length (m_relations c') = length (m_relations c)"
proof (induction T ndebug object pos it range_end c rule: find_loop.induct)
  case (1 T ndebug object pos it range_end c)
  let ?t = "e_type object"
  show ?case
  proof (cases "it < range_end")
    case False
    with "1.prems"(1) show ?thesis
      by (simp add: find_loop.simps range_hits_empty)
  next
    case True
    with "1.prems"(1) obtain c1 where
      step: "find_step T ndebug object pos it c = Inr c1"
      and rec: "find_loop T ndebug object pos (it + 1) range_end c1 = Inr c'"
      by (subst (asm) find_loop.simps) (auto simp: bind_e_Inr_iff)
    note s1 = find_step_Inr [OF step] and s2 = find_step_slots [OF step]
    have "m_relations c1 = fst (slot_step (relation_pos (m_member_meta c ?t ! it)) (slots_of c))"
      using arg_cong [OF s2(1), of fst] by (simp add: slots_of_def)
    then have len1: "length (m_relations c1) = length (m_relations c)"
      by (simp add: slot_step_length slots_of_def)
    from index_shape_maps(3) [OF s1(4), of ?t] "1.prems"(2)
    have le: "range_end \<le> length (m_member_meta c1 ?t)"
      by simp
    note ih = "1.IH" [OF True rec le]
    have rh: "range_hits (m_member_meta c ?t) it range_end =
        relation_pos (m_member_meta c ?t ! it) # range_hits (m_member_meta c1 ?t) (it + 1) range_end"
      using range_hits_step [OF True "1.prems"(2)] range_hits_shape [OF s1(4)] by simp
    let ?p = "relation_pos (m_member_meta c ?t ! it)"
    let ?rest = "range_hits (m_member_meta c1 ?t) (it + 1) range_end"
    from ih have "slots_of c' = foldl (\<lambda>sl p. slot_step p sl) (slots_of c1) ?rest"
      by (rule conjunct1)
    then have a: "slots_of c' = foldl (\<lambda>sl p. slot_step p sl) (slots_of c) (?p # ?rest)"
      by (simp only: s2(1) foldl_Cons)
    from ih have "index_shape (m_member_meta c') = index_shape (m_member_meta c1)"
      by blast
    then have b: "index_shape (m_member_meta c') = index_shape (m_member_meta c)"
      by (simp only: s1(4))
    from ih s2(2) have c: "list_all complete_call_ok (m_calls c) \<longrightarrow>
        list_all complete_call_ok (m_calls c')"
      by blast
    from ih have "\<forall>p \<in> set ?rest. p < length (m_relations c1)" by blast
    with s1(1) have d: "\<forall>p \<in> set (?p # ?rest). p < length (m_relations c)"
      by (simp add: len1)
    from ih have "length (m_relations c') = length (m_relations c1)" by blast
    then have e: "length (m_relations c') = length (m_relations c)"
      by (simp only: len1)
    from a b c d e show ?thesis
      unfolding rh by blast
  qed
qed

lemma equal_range_le: "snd (equal_range mmv v) \<le> length mmv"
  by (simp add: equal_range_def length_takeWhile_le)

lemma find_and_add_object_slots:
  assumes "find_and_add_object T ndebug c object = Inr (found, c')"
  shows "slots_of c' = foldl (\<lambda>sl p. slot_step p sl) (slots_of c)
            (case equal_range (m_member_meta c (e_type object)) (e_id object) of
               (first, second) \<Rightarrow> range_hits (m_member_meta c (e_type object)) first second)"
    and "index_shape (m_member_meta c') = index_shape (m_member_meta c)"
    and "list_all complete_call_ok (m_calls c) \<Longrightarrow> list_all complete_call_ok (m_calls c')"
    and "\<forall>p \<in> set (case equal_range (m_member_meta c (e_type object)) (e_id object) of
               (first, second) \<Rightarrow> range_hits (m_member_meta c (e_type object)) first second).
           p < length (m_relations c)"
    and "length (m_relations c') = length (m_relations c)"
proof -
  let ?mmv = "m_member_meta c (e_type object)"
  obtain first second where er: "equal_range ?mmv (e_id object) = (first, second)"
    by (cases "equal_range ?mmv (e_id object)")
  from equal_range_le [of ?mmv "e_id object"] er have le: "second \<le> length ?mmv" by simp
  let ?c1 = "c\<lparr>m_members_buffer :=
                         commit (add_item (padded_size T) object (m_members_buffer c))\<rparr>"
  have all: "slots_of c' = foldl (\<lambda>sl p. slot_step p sl) (slots_of c)
                (range_hits ?mmv first second) \<and>
     index_shape (m_member_meta c') = index_shape (m_member_meta c) \<and>
     (list_all complete_call_ok (m_calls c) \<longrightarrow> list_all complete_call_ok (m_calls c')) \<and>
     (\<forall>p \<in> set (range_hits ?mmv first second). p < length (m_relations c)) \<and>
     length (m_relations c') = length (m_relations c)"
  proof (cases "first = second")
    case True
    with assms er show ?thesis
      by (simp add: find_and_add_object_def range_hits_def)
  next
    case False
    with assms er have "find_loop T ndebug object (b_committed (m_members_buffer c))
        first second ?c1 = Inr c'"
      by (auto simp: find_and_add_object_def Let_def bind_e_Inr_iff)
    from find_loop_slots [OF this] le show ?thesis
      by (simp add: slots_of_def)
  qed
  with er show "slots_of c' = foldl (\<lambda>sl p. slot_step p sl) (slots_of c)
            (case equal_range ?mmv (e_id object) of
               (first, second) \<Rightarrow> range_hits ?mmv first second)"
    and "index_shape (m_member_meta c') = index_shape (m_member_meta c)"
    and "list_all complete_call_ok (m_calls c) \<Longrightarrow> list_all complete_call_ok (m_calls c')"
    and "\<forall>p \<in> set (case equal_range ?mmv (e_id object) of
               (first, second) \<Rightarrow> range_hits ?mmv first second).
           p < length (m_relations c)"
    and "length (m_relations c') = length (m_relations c)"
    by simp_all
qed

lemma HandlerPass2_object_slots:
  assumes "HandlerPass2_object T ndebug c object = Inr c'"
  shows "slots_of c' = foldl (\<lambda>sl p. slot_step p sl) (slots_of c)
            (object_hits T (m_member_meta c) object) \<and>
     index_shape (m_member_meta c') = index_shape (m_member_meta c) \<and>
     (list_all complete_call_ok (m_calls c) \<longrightarrow> list_all complete_call_ok (m_calls c')) \<and>
     (\<forall>p \<in> set (object_hits T (m_member_meta c) object). p < length (m_relations c)) \<and>
     length (m_relations c') = length (m_relations c)"
proof (cases "wanted T (e_type object)")
  case False
  with assms show ?thesis by (simp add: HandlerPass2_object_def object_hits_def)
next
  case True
  show ?thesis
  proof (cases "find_and_add_object T ndebug c object")
    case (Inl e)
    with assms True show ?thesis by (simp add: HandlerPass2_object_def)
  next
    case (Inr x)
    obtain found c1 where x: "x = (found, c1)" by (cases x)
    from Inr x have f: "find_and_add_object T ndebug c object = Inr (found, c1)" by simp
    from assms True f have c': "c' = (if \<not> found
        then c1\<lparr>m_calls := m_calls c1 @ [not_in_any_relation (e_type object) (e_id object)]\<rparr>
        else c1)"
      by (simp add: HandlerPass2_object_def split: if_splits)
  note s = find_and_add_object_slots [OF f]
  from c' have "slots_of c' = slots_of c1" "m_member_meta c' = m_member_meta c1"
    "m_relations c' = m_relations c1"
    "list_all complete_call_ok (m_calls c1) \<longrightarrow> list_all complete_call_ok (m_calls c')"
    by (auto simp: slots_of_def completed_slots_append)
    with s True show ?thesis by (simp add: object_hits_def)
  qed
qed

lemma apply_pass2_slots:
  "apply_pass2 T ndebug c objs = Inr c' \<Longrightarrow>
     slots_of c' = foldl (\<lambda>sl p. slot_step p sl) (slots_of c)
            (hit_slots T (m_member_meta c) objs) \<and>
     index_shape (m_member_meta c') = index_shape (m_member_meta c) \<and>
     (list_all complete_call_ok (m_calls c) \<longrightarrow> list_all complete_call_ok (m_calls c')) \<and>
     (\<forall>p \<in> set (hit_slots T (m_member_meta c) objs). p < length (m_relations c)) \<and>
     length (m_relations c') = length (m_relations c)"
proof (induction objs arbitrary: c)
  case Nil
  then show ?case by (simp add: hit_slots_def)
next
  case (Cons object objs)
  from Cons.prems obtain c1 where h: "HandlerPass2_object T ndebug c object = Inr c1"
    and r: "apply_pass2 T ndebug c1 objs = Inr c'"
    by (auto simp: bind_e_Inr_iff)
  note s = HandlerPass2_object_slots [OF h] and ih = Cons.IH [OF r]
  from s have sh: "index_shape (m_member_meta c1) = index_shape (m_member_meta c)" by simp
  have hs: "hit_slots T (m_member_meta c1) objs = hit_slots T (m_member_meta c) objs"
    by (simp add: hit_slots_def object_hits_shape [OF sh])
  have "hit_slots T (m_member_meta c) (object # objs) =
      object_hits T (m_member_meta c) object @ hit_slots T (m_member_meta c) objs"
    by (simp add: hit_slots_def)
  moreover from s ih hs have "slots_of c' = foldl (\<lambda>sl p. slot_step p sl) (slots_of c)
            (object_hits T (m_member_meta c) object @ hit_slots T (m_member_meta c) objs)"
    by simp
  moreover from ih sh have "index_shape (m_member_meta c') = index_shape (m_member_meta c)"
    by simp
  moreover from s ih have "list_all complete_call_ok (m_calls c) \<longrightarrow>
      list_all complete_call_ok (m_calls c')" by simp
  moreover from s ih hs have "\<forall>p \<in> set (object_hits T (m_member_meta c) object @
      hit_slots T (m_member_meta c) objs). p < length (m_relations c)"
    by (simp add: ball_Un)
  moreover from s ih have "length (m_relations c') = length (m_relations c)" by simp
  ultimately show ?case by simp
qed

lemma count_list_insort_key:
  "count_list (insort_key f x xs) y = count_list (x # xs) y"
  by (induction xs) auto

lemma count_list_sort_key: "count_list (sort_key f xs) y = count_list xs y"
  by (induction xs) (simp_all add: count_list_insort_key)

lemma example_collector_sort: "is_std_sort (std_sort example_collector)"
  by (simp add: is_std_sort_def example_collector_def count_list_sort_key)

lemma sort_member_meta_sorted:
  assumes "is_std_sort (std_sort T)"
  shows "sorted (map (\<lambda>m. sint (member_id m)) (m_member_meta (sort_member_meta T c) t))"
    and "count_list (m_member_meta (sort_member_meta T c) t) m = count_list (m_member_meta c t) m"
    and "m_relations (sort_member_meta T c) = m_relations c"
    and "m_calls (sort_member_meta T c) = m_calls c"
  using assms by (simp_all add: is_std_sort_def sort_member_meta_def)

lemmas collector_eval =
  collect_def read_relations_def HandlerPass1_relation_def add_relation_def add_item_def
  get_def commit_def rollback_def c_assert_def Collector_new_def Buffer_new_def
  RelationMeta_new_def RelationMeta_default_def MemberMeta_new_def increment_need_members_def
  got_one_member_def has_all_members_def sort_member_meta_def
  HandlerPass2_object_def wanted_def find_and_add_object_def equal_range_def
  find_loop.simps find_step_def get_at_def possibly_purge_deleted_members_def
  example_collector_def example_R1_def way_object_def new_object_def Let_def

lemma scenario_two_pass:
  "collect example_collector False [example_R1] [way_object 7, way_object 9, way_object 8] =
     Inr [not_in_any_relation way 9,
          complete_relation 0 \<lparr> relation_offset = 0, members_needed = 2, members_found = 2 \<rparr>]"
  by (simp add: collector_eval)

lemma slot_step_other:
  assumes "slot_step q (rs, finished) = (rs1, finished1)" and "q \<noteq> p"
  shows "rs1 ! p = rs ! p" and "count_list finished1 p = count_list finished p"
  using assms by (auto simp: slot_step_def Let_def split: if_splits)

lemma slot_step_same:
  assumes "slot_step p (rs, finished) = (rs1, finished1)" and "p < length rs"
  shows "members_found (rs ! p) + 1 = members_needed (rs ! p) \<Longrightarrow>
           count_list finished1 p = count_list finished p + 1 \<and> members_needed (rs1 ! p) = 0"
    and "members_found (rs ! p) + 1 \<noteq> members_needed (rs ! p) \<Longrightarrow>
           count_list finished1 p = count_list finished p \<and>
           members_found (rs1 ! p) = members_found (rs ! p) + 1 \<and>
           members_needed (rs1 ! p) = members_needed (rs ! p)"
  using assms
  by (auto simp: slot_step_def Let_def got_one_member_def has_all_members_def
      RelationMeta_default_def split: if_splits)

lemma slot_step_finished:
  assumes "slot_step q (rs, finished) = (rs1, finished1)"
  shows "set finished1 \<subseteq> insert q (set finished)" and "length rs1 = length rs"
  using assms by (auto simp: slot_step_def Let_def split: if_splits)

lemma slot_fold_finished:
  "foldl (\<lambda>sl q. slot_step q sl) (rs, finished) ps = (rs', finished') \<Longrightarrow>
     set finished' \<subseteq> set finished \<union> set ps"
proof (induction ps arbitrary: rs finished)
  case Nil
  then show ?case by simp
next
  case (Cons q ps)
  obtain rs1 finished1 where st: "slot_step q (rs, finished) = (rs1, finished1)"
    by (cases "slot_step q (rs, finished)")
  with Cons.prems have "foldl (\<lambda>sl q. slot_step q sl) (rs1, finished1) ps = (rs', finished')"
    by simp
  from Cons.IH [OF this] slot_step_finished(1) [OF st] show ?case by auto
qed

lemma slot_fold_count:
  "\<forall>q \<in> set ps. q < length rs \<Longrightarrow> p < length rs \<Longrightarrow>
   (count_list finished p = 0 \<and> members_found (rs ! p) < members_needed (rs ! p)) \<or>
   (count_list finished p = 1 \<and> members_needed (rs ! p) = 0) \<Longrightarrow>
   foldl (\<lambda>sl q. slot_step q sl) (rs, finished) ps = (rs', finished') \<Longrightarrow>
     count_list finished' p =
       (if count_list finished p = 1 \<or>
           members_needed (rs ! p) \<le> members_found (rs ! p) + count_list ps p
        then 1 else 0) \<and>
     (count_list finished' p = 1 \<longrightarrow> members_needed (rs' ! p) = 0) \<and>
     (count_list finished' p = 0 \<longrightarrow>
        members_found (rs' ! p) = members_found (rs ! p) + count_list ps p \<and>
        members_needed (rs' ! p) = members_needed (rs ! p))"
proof (induction ps arbitrary: rs finished)
  case Nil
  then show ?case by auto
next
  case (Cons q ps)
  obtain rs1 finished1 where st: "slot_step q (rs, finished) = (rs1, finished1)"
    by (cases "slot_step q (rs, finished)")
  with Cons.prems(4) have
    run: "foldl (\<lambda>sl q. slot_step q sl) (rs1, finished1) ps = (rs', finished')"
    by simp
  from slot_step_finished(2) [OF st] have len: "length rs1 = length rs" .
  from Cons.prems(1) len have ps: "\<forall>q \<in> set ps. q < length rs1" by simp
  from Cons.prems(2) len have p: "p < length rs1" by simp
  show ?case
  proof (cases "q = p")
    case False
    note o = slot_step_other [OF st False]
    from Cons.prems(3) o have
      "(count_list finished1 p = 0 \<and> members_found (rs1 ! p) < members_needed (rs1 ! p)) \<or>
       (count_list finished1 p = 1 \<and> members_needed (rs1 ! p) = 0)" by simp
    from Cons.IH [OF ps p this run] o False show ?thesis by simp
  next
    case True
    from st True have st': "slot_step p (rs, finished) = (rs1, finished1)" by simp
    note sm = slot_step_same [OF st' Cons.prems(2)]
    show ?thesis
    proof (cases "members_found (rs ! p) + 1 = members_needed (rs ! p)")
      case fire: True
      with Cons.prems(3) have z: "count_list finished p = 0" by auto
      from sm(1) [OF fire] z have
        i: "count_list finished1 p = 1" "members_needed (rs1 ! p) = 0" by simp_all
      then have "(count_list finished1 p = 0 \<and> members_found (rs1 ! p) < members_needed (rs1 ! p)) \<or>
       (count_list finished1 p = 1 \<and> members_needed (rs1 ! p) = 0)" by simp
      from Cons.IH [OF ps p this run] i z fire True show ?thesis by simp
    next
      case nofire: False
      note n = sm(2) [OF nofire]
      from Cons.prems(3) n nofire have
        "(count_list finished1 p = 0 \<and> members_found (rs1 ! p) < members_needed (rs1 ! p)) \<or>
         (count_list finished1 p = 1 \<and> members_needed (rs1 ! p) = 0)" by auto
      from Cons.IH [OF ps p this run] n True nofire Cons.prems(3) show ?thesis by auto
    qed
  qed
qed

text \<open>
  Claim C4, as the code has it. One step of the loop of \<open>find_and_add_object\<close> counts one
  member found for the slot of the entry; it calls \<open>complete_relation\<close> for the slot and
  tombstones it exactly when the count found has become equal to the count needed. Over a
  whole second pass that starts from slots that still need members, \<open>complete_relation\<close>
  is called for a slot once if the matches of the index entries of the slot by the objects
  of the pass, counted with the members already found, reach the number needed, and not at
  all otherwise. An entry is matched each time an object of its type and id arrives, so an
  object that arrives twice counts twice, and a relation can be completed while one of its
  members never arrives. A slot that was completed is left with no member needed, a slot
  that was not has its matches counted; every call is for a slot of the vector and carries
  equal counts.
\<close>

theorem complete_relation_at_most_once:
  "(find_step T ndebug object pos it c = Inr c1 \<longrightarrow>
      relation_pos (m_member_meta c (e_type object) ! it) < length (m_relations c) \<and>
      (if has_all_members
            (got_one_member (m_relations c ! relation_pos (m_member_meta c (e_type object) ! it)))
       then m_calls c1 = m_calls c @
              [complete_relation (relation_pos (m_member_meta c (e_type object) ! it))
                 (got_one_member
                    (m_relations c ! relation_pos (m_member_meta c (e_type object) ! it)))] \<and>
            m_relations c1 =
              (m_relations c)[relation_pos (m_member_meta c (e_type object) ! it) :=
                                RelationMeta_default]
       else m_calls c1 = m_calls c \<and>
            m_relations c1 =
              (m_relations c)[relation_pos (m_member_meta c (e_type object) ! it) :=
                 got_one_member
                   (m_relations c ! relation_pos (m_member_meta c (e_type object) ! it))])) \<and>
   ((\<forall>p < length (m_relations c).
        members_found (m_relations c ! p) < members_needed (m_relations c ! p)) \<and>
    m_calls c = [] \<and> apply_pass2 T ndebug c objs = Inr c' \<longrightarrow>
      (\<forall>p < length (m_relations c).
         count_list (completed_slots (m_calls c')) p =
           (if members_needed (m_relations c ! p)
                 \<le> members_found (m_relations c ! p)
                     + count_list (hit_slots T (m_member_meta c) objs) p
            then 1 else 0) \<and>
         (count_list (completed_slots (m_calls c')) p = 1 \<longrightarrow>
            members_needed (m_relations c' ! p) = 0) \<and>
         (count_list (completed_slots (m_calls c')) p = 0 \<longrightarrow>
            members_found (m_relations c' ! p) =
              members_found (m_relations c ! p)
              + count_list (hit_slots T (m_member_meta c) objs) p \<and>
            members_needed (m_relations c' ! p) = members_needed (m_relations c ! p))) \<and>
      (\<forall>q \<in> set (completed_slots (m_calls c')). q < length (m_relations c)) \<and>
      list_all complete_call_ok (m_calls c'))"
proof -
  have A: "relation_pos (m_member_meta c (e_type object) ! it) < length (m_relations c) \<and>
      (if has_all_members
            (got_one_member (m_relations c ! relation_pos (m_member_meta c (e_type object) ! it)))
       then m_calls c1 = m_calls c @
              [complete_relation (relation_pos (m_member_meta c (e_type object) ! it))
                 (got_one_member
                    (m_relations c ! relation_pos (m_member_meta c (e_type object) ! it)))] \<and>
            m_relations c1 =
              (m_relations c)[relation_pos (m_member_meta c (e_type object) ! it) :=
                                RelationMeta_default]
       else m_calls c1 = m_calls c \<and>
            m_relations c1 =
              (m_relations c)[relation_pos (m_member_meta c (e_type object) ! it) :=
                 got_one_member
                   (m_relations c ! relation_pos (m_member_meta c (e_type object) ! it))])"
    if "find_step T ndebug object pos it c = Inr c1"
    using find_step_Inr(1,2,3) [OF that] by simp
  have B: "(\<forall>p < length (m_relations c).
         count_list (completed_slots (m_calls c')) p =
           (if members_needed (m_relations c ! p)
                 \<le> members_found (m_relations c ! p)
                     + count_list (hit_slots T (m_member_meta c) objs) p
            then 1 else 0) \<and>
         (count_list (completed_slots (m_calls c')) p = 1 \<longrightarrow>
            members_needed (m_relations c' ! p) = 0) \<and>
         (count_list (completed_slots (m_calls c')) p = 0 \<longrightarrow>
            members_found (m_relations c' ! p) =
              members_found (m_relations c ! p)
              + count_list (hit_slots T (m_member_meta c) objs) p \<and>
            members_needed (m_relations c' ! p) = members_needed (m_relations c ! p))) \<and>
      (\<forall>q \<in> set (completed_slots (m_calls c')). q < length (m_relations c)) \<and>
      list_all complete_call_ok (m_calls c')"
    if fresh: "\<forall>p < length (m_relations c).
        members_found (m_relations c ! p) < members_needed (m_relations c ! p)"
      and calls: "m_calls c = []" and run: "apply_pass2 T ndebug c objs = Inr c'"
  proof -
    let ?ps = "hit_slots T (m_member_meta c) objs"
    from apply_pass2_slots [OF run] calls have
      fold: "foldl (\<lambda>sl q. slot_step q sl) (m_relations c, []) ?ps =
               (m_relations c', completed_slots (m_calls c'))"
      and hits: "\<forall>q \<in> set ?ps. q < length (m_relations c)"
      and ok: "list_all complete_call_ok (m_calls c')"
      by (simp_all add: slots_of_def)
    have "count_list (completed_slots (m_calls c')) p =
           (if members_needed (m_relations c ! p)
                 \<le> members_found (m_relations c ! p) + count_list ?ps p
            then 1 else 0) \<and>
         (count_list (completed_slots (m_calls c')) p = 1 \<longrightarrow>
            members_needed (m_relations c' ! p) = 0) \<and>
         (count_list (completed_slots (m_calls c')) p = 0 \<longrightarrow>
            members_found (m_relations c' ! p) =
              members_found (m_relations c ! p) + count_list ?ps p \<and>
            members_needed (m_relations c' ! p) = members_needed (m_relations c ! p))"
      if p: "p < length (m_relations c)" for p
    proof -
      from fresh p have "(count_list [] p = 0 \<and>
          members_found (m_relations c ! p) < members_needed (m_relations c ! p)) \<or>
         (count_list [] p = 1 \<and> members_needed (m_relations c ! p) = 0)" by simp
      from slot_fold_count [OF hits p this fold] show ?thesis by simp
    qed
    moreover from slot_fold_finished [OF fold] hits
    have "\<forall>q \<in> set (completed_slots (m_calls c')). q < length (m_relations c)" by auto
    ultimately show ?thesis using ok by blast
  qed
  from A B show ?thesis by blast
qed

lemma example_pass2_run:
  "\<exists>c c1 c'.
     read_relations example_collector False Collector_new [example_R1] = Inr c \<and>
     find_step example_collector False (way_object 7) 0 0 c = Inr c1 \<and>
     apply_pass2 example_collector False c [way_object 7, way_object 9, way_object 8] = Inr c' \<and>
     m_relations c = [\<lparr> relation_offset = 0, members_needed = 2, members_found = 0 \<rparr>] \<and>
     m_calls c = [] \<and>
     m_relations c1 = [\<lparr> relation_offset = 0, members_needed = 2, members_found = 1 \<rparr>] \<and>
     hit_slots example_collector (m_member_meta c) [way_object 7, way_object 9, way_object 8]
       = [0, 0] \<and>
     m_calls c' = [not_in_any_relation way 9,
          complete_relation 0 \<lparr> relation_offset = 0, members_needed = 2, members_found = 2 \<rparr>]"
  by (simp add: collector_eval hit_slots_def object_hits_def range_hits_def)

theorem complete_relation_at_most_once_witness:
  "collect example_collector False [example_R1] [way_object 7, way_object 9, way_object 8] =
     Inr [not_in_any_relation way 9,
          complete_relation 0 \<lparr> relation_offset = 0, members_needed = 2, members_found = 2 \<rparr>] \<and>
   count_list (completed_slots [not_in_any_relation way 9,
          complete_relation 0 \<lparr> relation_offset = 0, members_needed = 2, members_found = 2 \<rparr>]) 0
     = 1 \<and>
   (2 :: nat) \<le> 0 + count_list [0, 0] (0 :: nat) \<and>
   collect example_collector False [example_R1] [way_object 7, way_object 7] =
     Inr [complete_relation 0 \<lparr> relation_offset = 0, members_needed = 2, members_found = 2 \<rparr>] \<and>
   collect example_collector False [example_R3] [way_object 7, way_object 8] =
     Inr [complete_relation 0 \<lparr> relation_offset = 0, members_needed = 2, members_found = 2 \<rparr>]"
proof -
  have sorted: "collect example_collector False [example_R3] [way_object 7, way_object 8] =
     Inr [complete_relation 0 \<lparr> relation_offset = 0, members_needed = 2, members_found = 2 \<rparr>]"
    by (simp add: collector_eval example_R3_def)
  have twice: "collect example_collector False [example_R1] [way_object 7, way_object 7] =
     Inr [complete_relation 0 \<lparr> relation_offset = 0, members_needed = 2, members_found = 2 \<rparr>]"
    by (simp add: collector_eval)
  from example_pass2_run obtain c c1 c' where
    r: "read_relations example_collector False Collector_new [example_R1] = Inr c"
    and s: "find_step example_collector False (way_object 7) 0 0 c = Inr c1"
    and a: "apply_pass2 example_collector False c [way_object 7, way_object 9, way_object 8] = Inr c'"
    and rs: "m_relations c = [\<lparr> relation_offset = 0, members_needed = 2, members_found = 0 \<rparr>]"
    and calls: "m_calls c = []"
    and h: "hit_slots example_collector (m_member_meta c)
              [way_object 7, way_object 9, way_object 8] = [0, 0]"
    and calls': "m_calls c' = [not_in_any_relation way 9,
          complete_relation 0 \<lparr> relation_offset = 0, members_needed = 2, members_found = 2 \<rparr>]"
    by blast
  have fresh: "\<forall>p < length (m_relations c).
        members_found (m_relations c ! p) < members_needed (m_relations c ! p)"
    by (simp add: rs)
  from complete_relation_at_most_once [of example_collector False "way_object 7" 0 0 c c1
      "[way_object 7, way_object 9, way_object 8]" c'] s fresh calls a
  have "\<forall>p < length (m_relations c).
         count_list (completed_slots (m_calls c')) p =
           (if members_needed (m_relations c ! p)
                 \<le> members_found (m_relations c ! p)
                     + count_list (hit_slots example_collector (m_member_meta c)
                         [way_object 7, way_object 9, way_object 8]) p
            then 1 else 0)"
    by blast
  with rs h calls' have "count_list (completed_slots [not_in_any_relation way 9,
          complete_relation 0 \<lparr> relation_offset = 0, members_needed = 2, members_found = 2 \<rparr>]) 0
     = 1"
    by simp
  moreover from r a calls' have
    "collect example_collector False [example_R1] [way_object 7, way_object 9, way_object 8] =
     Inr [not_in_any_relation way 9,
          complete_relation 0 \<lparr> relation_offset = 0, members_needed = 2, members_found = 2 \<rparr>]"
    by (simp add: collect_def)
  ultimately show ?thesis using twice sorted by simp
qed

theorem missing_member_counterexample:
  "bind_e (read_relations example_collector False Collector_new [example_R1])
     (\<lambda>c. Inr (m_relations c)) =
     Inr [\<lparr> relation_offset = 0, members_needed = 2, members_found = 0 \<rparr>] \<and>
   collect example_collector False [example_R1] [way_object 7] = Inr [] \<and>
   count_list (completed_slots []) 0 = 0"
  by (simp add: collector_eval)

subsection \<open>The first pass\<close>

lemma add_relation_members_none:
  "\<forall>m \<in> set ms. \<not> keep_member T rm m \<Longrightarrow>
     add_relation_members T rpos ms n mm rm = (map (\<lambda>m. (fst m, 0, snd (snd m))) ms, mm, rm)"
  by (induction ms arbitrary: n) simp_all

text \<open>
  Between two calls of \<open>add_relation\<close> the write head of the relations buffer is at the
  watermark: it is there in a new collector, and every \<open>add_relation\<close> that returns ends
  in \<open>commit()\<close> or \<open>rollback()\<close>.
\<close>

lemma add_relation_write_head:
  assumes "add_relation T ndebug c rel = Inr c'"
  shows "b_written (m_relations_buffer c') = b_committed (m_relations_buffer c')"
proof -
  obtain members mm relation_meta where
    "add_relation_members T (length (m_relations c))
       (e_members (projr (get (add_item (padded_size T) rel (m_relations_buffer c))
          (b_committed (m_relations_buffer c))))) 0 (m_member_meta c)
       (RelationMeta_new (b_committed (m_relations_buffer c))) = (members, mm, relation_meta)"
    by (rule prod_cases3)
  with assms show ?thesis
    by (auto simp: add_relation_def Let_def bind_e_Inr_iff rollback_def commit_def
        split: if_splits)
qed

lemma apply_pass1_write_head:
  "apply_pass1 T ndebug c source = Inr c' \<Longrightarrow>
   b_written (m_relations_buffer c) = b_committed (m_relations_buffer c) \<Longrightarrow>
   b_written (m_relations_buffer c') = b_committed (m_relations_buffer c')"
proof (induction source arbitrary: c)
  case Nil
  then show ?case by simp
next
  case (Cons object source)
  from Cons.prems(1) obtain c1 where
    h: "(if e_type object = relation then HandlerPass1_relation T ndebug c object else Inr c) = Inr c1"
    and r: "apply_pass1 T ndebug c1 source = Inr c'"
    by (auto simp: bind_e_Inr_iff)
  have "b_written (m_relations_buffer c1) = b_committed (m_relations_buffer c1)"
  proof (cases "e_type object = relation \<and> keep_relation T object")
    case True
    with h have "add_relation T ndebug c object = Inr c1"
      by (simp add: HandlerPass1_relation_def)
    then show ?thesis by (rule add_relation_write_head)
  next
    case False
    with h have "c1 = c" by (auto simp: HandlerPass1_relation_def split: if_splits)
    with Cons.prems(2) show ?thesis by simp
  qed
  from Cons.IH [OF r this] show ?case .
qed

lemma Collector_new_write_head:
  "b_written (m_relations_buffer Collector_new) = b_committed (m_relations_buffer Collector_new)"
  by (simp add: Collector_new_def Buffer_new_def)

text \<open>
  Claim C9. When \<open>keep_member\<close> keeps no member of the relation (the write head of the
  relations buffer being at the watermark, as every \<open>add_relation\<close> leaves it),
  \<open>add_relation\<close> returns with the watermark, the slot vector, the member index and the
  calls made as they were, and the write head back at the watermark. A second pass after
  it completes the slots as the state before the call determines, and every
  \<open>complete_relation\<close> is for a slot that was there before the call: the relation has
  no slot and is not emitted.
\<close>

theorem add_relation_rollback:
  assumes none: "\<forall>m \<in> set (e_members rel).
        \<not> keep_member T (RelationMeta_new (b_committed (m_relations_buffer c))) m"
    and wf: "b_written (m_relations_buffer c) = b_committed (m_relations_buffer c)"
  shows "\<exists>c'. add_relation T ndebug c rel = Inr c' \<and>
           b_committed (m_relations_buffer c') = b_committed (m_relations_buffer c) \<and>
           b_written (m_relations_buffer c') = b_committed (m_relations_buffer c) \<and>
           m_relations c' = m_relations c \<and>
           m_member_meta c' = m_member_meta c \<and>
           m_calls c' = m_calls c \<and>
           (\<forall>ndebug' objs c2. apply_pass2 T ndebug' c' objs = Inr c2 \<longrightarrow>
              slots_of c2 = foldl (\<lambda>sl q. slot_step q sl) (slots_of c)
                              (hit_slots T (m_member_meta c) objs) \<and>
              (\<forall>q \<in> set (completed_slots (m_calls c2)).
                 q \<in> set (completed_slots (m_calls c)) \<or> q < length (m_relations c)))"
proof -
  let ?offset = "b_committed (m_relations_buffer c)"
  let ?buf = "add_item (padded_size T) rel (m_relations_buffer c)"
  let ?members = "map (\<lambda>m. (fst m, 0, snd (snd m))) (e_members rel)"
  let ?buf' = "?buf\<lparr>b_data := (b_data ?buf)(?offset \<mapsto> rel\<lparr>e_members := ?members\<rparr>)\<rparr>"
  let ?c' = "c\<lparr>m_relations_buffer := rollback ?buf', m_member_meta := m_member_meta c\<rparr>"
  have g: "get ?buf ?offset = Inr rel"
    using wf by (simp add: get_def add_item_def)
  have m: "add_relation_members T (length (m_relations c)) (e_members rel) 0 (m_member_meta c)
      (RelationMeta_new ?offset) = (?members, m_member_meta c, RelationMeta_new ?offset)"
    by (rule add_relation_members_none [OF none])
  have r: "add_relation T ndebug c rel = Inr ?c'"
    unfolding add_relation_def Let_def g bind_e_Inr m
    by (simp add: c_assert_def add_item_def has_all_members_def RelationMeta_new_def)
  have f: "b_committed (m_relations_buffer ?c') = ?offset"
    "b_written (m_relations_buffer ?c') = ?offset"
    "m_relations ?c' = m_relations c" "m_member_meta ?c' = m_member_meta c"
    "m_calls ?c' = m_calls c"
    by (simp_all add: rollback_def add_item_def)
  have p2: "slots_of c2 = foldl (\<lambda>sl q. slot_step q sl) (slots_of c)
                              (hit_slots T (m_member_meta c) objs) \<and>
              (\<forall>q \<in> set (completed_slots (m_calls c2)).
                 q \<in> set (completed_slots (m_calls c)) \<or> q < length (m_relations c))"
    if run: "apply_pass2 T ndebug' ?c' objs = Inr c2" for ndebug' objs c2
  proof -
    have so: "slots_of ?c' = slots_of c" by (simp add: slots_of_def)
    from apply_pass2_slots [OF run] have
      fold: "slots_of c2 = foldl (\<lambda>sl q. slot_step q sl) (slots_of c)
                (hit_slots T (m_member_meta c) objs)"
      and hits: "\<forall>q \<in> set (hit_slots T (m_member_meta c) objs). q < length (m_relations c)"
      unfolding so by simp_all
    from fold have "foldl (\<lambda>sl q. slot_step q sl) (m_relations c, completed_slots (m_calls c))
        (hit_slots T (m_member_meta c) objs) = (m_relations c2, completed_slots (m_calls c2))"
      by (simp add: slots_of_def)
    from slot_fold_finished [OF this] hits
    have "\<forall>q \<in> set (completed_slots (m_calls c2)).
                 q \<in> set (completed_slots (m_calls c)) \<or> q < length (m_relations c)"
      by auto
    with fold show ?thesis by simp
  qed
  from r f p2 show ?thesis by blast
qed

theorem add_relation_rollback_witness:
  "\<not> keep_member example_collector (RelationMeta_new 0) (node, 3, []) \<and>
   bind_e (add_relation example_collector False Collector_new example_R2)
     (\<lambda>c'. Inr (b_committed (m_relations_buffer c'), b_written (m_relations_buffer c'),
                m_relations c', m_member_meta c' node, m_calls c')) =
     Inr (0, 0, [], [], []) \<and>
   collect example_collector False [example_R2, example_R1] [way_object 7, way_object 8] =
     Inr [complete_relation 0 \<lparr> relation_offset = 0, members_needed = 2, members_found = 2 \<rparr>]"
proof -
  have n: "\<forall>m \<in> set (e_members example_R2).
        \<not> keep_member example_collector
            (RelationMeta_new (b_committed (m_relations_buffer Collector_new))) m"
    by (simp add: example_R2_def example_collector_def new_object_def)
  have w: "b_written (m_relations_buffer Collector_new) =
      b_committed (m_relations_buffer Collector_new)"
    by (simp add: Collector_new_def Buffer_new_def)
  from add_relation_rollback [OF n w, of False] obtain c' where
    "add_relation example_collector False Collector_new example_R2 = Inr c'"
    "b_committed (m_relations_buffer c') = b_committed (m_relations_buffer Collector_new)"
    "b_written (m_relations_buffer c') = b_committed (m_relations_buffer Collector_new)"
    "m_relations c' = m_relations Collector_new"
    "m_member_meta c' = m_member_meta Collector_new"
    "m_calls c' = m_calls Collector_new"
    by blast
  then have "bind_e (add_relation example_collector False Collector_new example_R2)
     (\<lambda>c'. Inr (b_committed (m_relations_buffer c'), b_written (m_relations_buffer c'),
                m_relations c', m_member_meta c' node, m_calls c')) =
     Inr (0, 0, [], [], [])"
    by (simp add: Collector_new_def Buffer_new_def)
  moreover have "\<not> keep_member example_collector (RelationMeta_new 0) (node, 3, [])"
    by (simp add: example_collector_def)
  moreover have
    "collect example_collector False [example_R2, example_R1] [way_object 7, way_object 8] =
     Inr [complete_relation 0 \<lparr> relation_offset = 0, members_needed = 2, members_found = 2 \<rparr>]"
    by (simp add: collector_eval example_R2_def)
  ultimately show ?thesis by simp
qed

end
